theory Spec2Isabelle
  imports Complex_Main "HOL-Library.Word" "HOL-Library.Monad_Syntax"
begin

section \<open>Smart Glasses LED controller (firmware/main.c)\<close>

text \<open>
  The firmware keeps its configuration and mode flags in file-scope variables that the
  BLE write callback, the LED task and the main loop all read and write. The model keeps
  them in one record, together with the locals of \<open>led_task\<close> that live across loop
  iterations, the function-scope statics, and a trace of the calls made to the peripherals.
  Each source function becomes a function from state to state. \<open>xTaskGetTickCount()\<close> is an
  argument \<open>now\<close>, \<open>gpio_get_level\<close> an argument \<open>level\<close>, and the FreeRTOS macro
  \<open>portTICK_PERIOD_MS\<close>, which is not defined in this file, an argument \<open>tick\<close> (of
  type \<open>TickType_t\<close>, so the divisions by it are unsigned; it is nonzero in every FreeRTOS
  configuration). \<open>ESP_LOGx\<close> calls are left out. A \<open>uint8_t\<close> operand of an arithmetic
  expression is promoted to \<open>int\<close>: such expressions are computed on \<open>int\<close>, where none
  of them can overflow 32 bits, and converted back.

  The three contexts run concurrently in the firmware. The model lets them take turns: a
  write event, an iteration of the LED task and a call of \<open>check_sleep_condition\<close> each
  run from start to end.
\<close>

subsection \<open>Single-precision values\<close>

text \<open>
  A C \<open>float\<close> is a finite value, an infinity (\<open>Inf True\<close> is the negative one) or NaN.
  Finite results are rounded by \<open>rnd\<close>, the rounding of the target's float format, which
  is an argument of every operation: the results below that depend on it ask only that it
  is monotone and exact on small integers, as round-to-nearest on binary32 is. Signed
  zeros are not distinguished; every divisor in this program is converted from an
  unsigned integer, hence never a negative zero.
\<close>

datatype cfloat = Fin real | Inf bool | NaN

type_synonym rounding = "real \<Rightarrow> real"

fun fneg :: "cfloat \<Rightarrow> cfloat" where
  "fneg (Fin x) = Fin (- x)"
| "fneg (Inf b) = Inf (\<not> b)"
| "fneg NaN = NaN"

fun fadd :: "rounding \<Rightarrow> cfloat \<Rightarrow> cfloat \<Rightarrow> cfloat" where
  "fadd rnd (Fin x) (Fin y) = Fin (rnd (x + y))"
| "fadd rnd (Fin x) (Inf b) = Inf b"
| "fadd rnd (Inf a) (Fin y) = Inf a"
| "fadd rnd (Inf a) (Inf b) = (if a = b then Inf a else NaN)"
| "fadd rnd NaN y = NaN"
| "fadd rnd x NaN = NaN"

definition fsub :: "rounding \<Rightarrow> cfloat \<Rightarrow> cfloat \<Rightarrow> cfloat" where
  "fsub rnd x y = fadd rnd x (fneg y)"

fun fmul :: "rounding \<Rightarrow> cfloat \<Rightarrow> cfloat \<Rightarrow> cfloat" where
  "fmul rnd (Fin x) (Fin y) = Fin (rnd (x * y))"
| "fmul rnd (Fin x) (Inf b) = (if x = 0 then NaN else Inf ((x < 0) \<noteq> b))"
| "fmul rnd (Inf a) (Fin y) = (if y = 0 then NaN else Inf (a \<noteq> (y < 0)))"
| "fmul rnd (Inf a) (Inf b) = Inf (a \<noteq> b)"
| "fmul rnd NaN y = NaN"
| "fmul rnd x NaN = NaN"

fun fdiv :: "rounding \<Rightarrow> cfloat \<Rightarrow> cfloat \<Rightarrow> cfloat" where
  "fdiv rnd (Fin x) (Fin y) =
     (if y \<noteq> 0 then Fin (rnd (x / y))
      else if x = 0 then NaN
      else Inf (x < 0))"
| "fdiv rnd (Fin x) (Inf b) = Fin 0"
| "fdiv rnd (Inf a) (Fin y) = Inf (a \<noteq> (y < 0))"
| "fdiv rnd (Inf a) (Inf b) = NaN"
| "fdiv rnd NaN y = NaN"
| "fdiv rnd x NaN = NaN"

text \<open>Comparisons with a NaN operand are false.\<close>

fun flt :: "cfloat \<Rightarrow> cfloat \<Rightarrow> bool" where
  "flt (Fin x) (Fin y) = (x < y)"
| "flt (Fin x) (Inf b) = (\<not> b)"
| "flt (Inf a) (Fin y) = a"
| "flt (Inf a) (Inf b) = (a \<and> \<not> b)"
| "flt NaN y = False"
| "flt x NaN = False"

definition fgt :: "cfloat \<Rightarrow> cfloat \<Rightarrow> bool" where
  "fgt x y = flt y x"

text \<open>Conversion of an integer value to \<open>float\<close>.\<close>

definition float_of_int :: "rounding \<Rightarrow> int \<Rightarrow> cfloat" where
  "float_of_int rnd i = Fin (rnd (of_int i))"

text \<open>
  Conversion of a \<open>float\<close> to an unsigned integer type of \<open>LENGTH('a)\<close> bits discards the
  fraction. When the truncated value is not representable (also for NaN and the
  infinities) the behaviour of the C program is undefined: the result is \<open>None\<close>.
\<close>

definition ftrunc :: "real \<Rightarrow> int" where
  "ftrunc x = (if 0 \<le> x then \<lfloor>x\<rfloor> else \<lceil>x\<rceil>)"

fun unsigned_of_float :: "cfloat \<Rightarrow> 'a::len word option" where
  "unsigned_of_float (Fin x) =
     (if 0 \<le> ftrunc x \<and> ftrunc x < 2 ^ LENGTH('a) then Some (word_of_int (ftrunc x)) else None)"
| "unsigned_of_float (Inf b) = None"
| "unsigned_of_float NaN = None"

text \<open>
  What is asked of the rounding where a result depends on it: it is monotone, and exact
  on the integers of up to 24 bits (binary32 has a 24-bit significand).
\<close>

definition rounding_ok :: "rounding \<Rightarrow> bool" where
  "rounding_ok rnd \<longleftrightarrow>
     mono rnd \<and> (\<forall>n :: int. \<bar>n\<bar> \<le> 2 ^ 24 \<longrightarrow> rnd (of_int n) = of_int n)"

subsection \<open>State\<close>

text \<open>Calls to the peripherals and to the scheduler, in the order they are made.\<close>

datatype hw_call =
    LedcDuty "32 word"      \<comment> \<open>\<open>ledc_set_duty\<close> with this raw value, then \<open>ledc_update_duty\<close>\<close>
  | TaskDelay "32 word"     \<comment> \<open>\<open>vTaskDelay\<close> of this many ticks\<close>
  | GattsResponse           \<comment> \<open>\<open>esp_ble_gatts_send_response\<close> with \<open>ESP_GATT_OK\<close>\<close>
  | DeepSleepStart          \<comment> \<open>\<open>esp_sleep_enable_ext0_wakeup\<close>, then \<open>esp_deep_sleep_start\<close>\<close>

record sys =
  brightness :: "8 word"
  start_hz :: "8 word"
  end_hz :: "8 word"
  inhale_time :: "8 word"
  exhale_time :: "8 word"
  hold_in_end :: "8 word"
  hold_out_end :: "8 word"
  session_minutes :: "8 word"
  session_start_tick :: "32 word"
  session_active :: "8 word"
  session_ended :: "8 word"
  override_active :: "8 word"
  override_duty :: "8 word"
  \<comment> \<open>locals of \<open>led_task\<close> declared before its loop, and its static \<open>last_log\<close>\<close>
  breath_phase :: "8 word"
  phase_start :: "32 word"
  breath_brightness :: cfloat
  last_log :: "32 word"
  \<comment> \<open>statics of \<open>check_sleep_condition\<close>\<close>
  arms_closed_duration :: "32 word"
  last_check_time :: "32 word"
  \<comment> \<open>\<open>esp_deep_sleep_start\<close> was called: nothing runs after it\<close>
  asleep :: bool
  calls :: "hw_call list"

text \<open>The initialisers of the file-scope variables and of the function-scope statics.\<close>

definition initial :: sys where
  "initial = \<lparr> brightness = 100, start_hz = 12, end_hz = 8,
     inhale_time = 40, exhale_time = 40, hold_in_end = 40, hold_out_end = 40,
     session_minutes = 10, session_start_tick = 0,
     session_active = 0, session_ended = 0,
     override_active = 0, override_duty = 0,
     breath_phase = 0, phase_start = 0, breath_brightness = Fin 0, last_log = 0,
     arms_closed_duration = 0, last_check_time = 0,
     asleep = False, calls = [] \<rparr>"

definition hw :: "hw_call \<Rightarrow> sys \<Rightarrow> sys" where
  "hw c s = s\<lparr>calls := calls s @ [c]\<rparr>"

subsection \<open>PWM\<close>

definition PWM_MIN_VISIBLE :: "32 word" where
  "PWM_MIN_VISIBLE = 400"

definition PWM_MAX :: "32 word" where
  "PWM_MAX = 1024"

text \<open>The value \<open>pwm1_setduty\<close> computes in its local \<open>raw\<close>.\<close>

definition pwm1_raw :: "32 word \<Rightarrow> 32 word" where
  "pwm1_raw duty =
     (if duty = 0 then 0
      else PWM_MIN_VISIBLE + (PWM_MAX - PWM_MIN_VISIBLE) * duty div 100)"

definition pwm1_setduty :: "32 word \<Rightarrow> sys \<Rightarrow> sys" where
  "pwm1_setduty duty s = hw (LedcDuty (pwm1_raw duty)) s"

subsection \<open>BLE write event\<close>

text \<open>
  The body of \<open>case ESP_GATTS_WRITE_EVT\<close> of \<open>gatts_profile_event_handler\<close>.
  \<open>val\<close> holds the \<open>param->write.len\<close> bytes of \<open>param->write.value\<close>. The single-byte
  branch and each \<open>case\<close> of the \<open>switch\<close> are one definition each.
\<close>

definition legacy_cmd :: "8 word \<Rightarrow> sys \<Rightarrow> sys" where
  "legacy_cmd raw s =
     (let s1 = s\<lparr>override_duty := word_of_int (uint raw * 100 div 255)\<rparr>;
          s2 = s1\<lparr>override_active := 1\<rparr>;
          s3 = s2\<lparr>session_active := 0\<rparr>
      in pwm1_setduty (ucast (override_duty s3)) s3)"

definition restart_session :: "32 word \<Rightarrow> sys \<Rightarrow> sys" where
  "restart_session now s =
     s\<lparr>override_active := 0, session_start_tick := now,
       session_active := 1, session_ended := 0\<rparr>"

definition cmd_A1 :: "32 word \<Rightarrow> 8 word list \<Rightarrow> sys \<Rightarrow> sys" where
  "cmd_A1 now val s =
     (if 3 \<le> length val then
        let s1 = s\<lparr>start_hz := val ! 1\<rparr>;
            s2 = s1\<lparr>end_hz := val ! 2\<rparr>;
            s3 = (if start_hz s2 < 1 then s2\<lparr>start_hz := 1\<rparr> else s2);
            s4 = (if start_hz s3 > 50 then s3\<lparr>start_hz := 50\<rparr> else s3);
            s5 = (if end_hz s4 < 1 then s4\<lparr>end_hz := 1\<rparr> else s4);
            s6 = (if end_hz s5 > 50 then s5\<lparr>end_hz := 50\<rparr> else s5)
        in restart_session now s6
      else s)"

definition cmd_A2 :: "8 word list \<Rightarrow> sys \<Rightarrow> sys" where
  "cmd_A2 val s =
     (if 2 \<le> length val then
        let s1 = s\<lparr>brightness := val ! 1\<rparr>
        in (if brightness s1 > 100 then s1\<lparr>brightness := 100\<rparr> else s1)
      else s)"

definition cmd_A3 :: "32 word \<Rightarrow> 8 word list \<Rightarrow> sys \<Rightarrow> sys" where
  "cmd_A3 now val s =
     (if 5 \<le> length val then
        restart_session now
          (s\<lparr>inhale_time := val ! 1, hold_in_end := val ! 2,
             exhale_time := val ! 3, hold_out_end := val ! 4\<rparr>)
      else s)"

definition cmd_A4 :: "32 word \<Rightarrow> 8 word list \<Rightarrow> sys \<Rightarrow> sys" where
  "cmd_A4 now val s =
     (if 2 \<le> length val then
        let s1 = s\<lparr>session_minutes := val ! 1\<rparr>;
            s2 = (if session_minutes s1 < 1 then s1\<lparr>session_minutes := 1\<rparr> else s1);
            s3 = (if session_minutes s2 > 60 then s2\<lparr>session_minutes := 60\<rparr> else s2)
        in restart_session now s3
      else s)"

definition cmd_A5 :: "8 word list \<Rightarrow> sys \<Rightarrow> sys" where
  "cmd_A5 val s =
     (if 2 \<le> length val then
        let s1 = s\<lparr>override_duty := val ! 1\<rparr>;
            s2 = (if override_duty s1 > 100 then s1\<lparr>override_duty := 100\<rparr> else s1);
            s3 = s2\<lparr>override_active := 1\<rparr>;
            s4 = s3\<lparr>session_active := 0\<rparr>
        in pwm1_setduty (ucast (override_duty s4)) s4
      else s)"

definition cmd_A6 :: "32 word \<Rightarrow> sys \<Rightarrow> sys" where
  "cmd_A6 now s = restart_session now s"

definition cmd_A7 :: "sys \<Rightarrow> sys" where
  "cmd_A7 s = s\<lparr>session_ended := 1\<rparr>"

text \<open>The response is sent first, whatever the payload.\<close>

definition send_response :: "bool \<Rightarrow> sys \<Rightarrow> sys" where
  "send_response need_rsp s = (if need_rsp then hw GattsResponse s else s)"

definition gatts_write_evt :: "32 word \<Rightarrow> bool \<Rightarrow> 8 word list \<Rightarrow> sys \<Rightarrow> sys" where
  "gatts_write_evt now need_rsp val s0 =
     (let s = send_response need_rsp s0 in
      if 0 < length val then
        if length val = 1 then legacy_cmd (val ! 0) s
        else
          let cmd = val ! 0 in
          if cmd = 0xA1 then cmd_A1 now val s
          else if cmd = 0xA2 then cmd_A2 val s
          else if cmd = 0xA3 then cmd_A3 now val s
          else if cmd = 0xA4 then cmd_A4 now val s
          else if cmd = 0xA5 then cmd_A5 val s
          else if cmd = 0xA6 then cmd_A6 now s
          else if cmd = 0xA7 then cmd_A7 s
          else s
      else s)"

subsection \<open>The LED task\<close>

text \<open>
  One iteration of the \<open>while (1)\<close> loop of \<open>led_task\<close>, in the order of the source.
  The result is \<open>None\<close> where the C program has undefined behaviour: a \<open>float\<close> that does
  not fit the integer type it is converted to, or a read of \<open>phase_durations\<close> outside
  its four elements.
\<close>

definition session_duration_ticks :: "32 word \<Rightarrow> sys \<Rightarrow> 32 word" where
  "session_duration_ticks tick s = word_of_int (uint (session_minutes s) * 60 * 1000) div tick"

definition session_progress :: "rounding \<Rightarrow> 32 word \<Rightarrow> 32 word \<Rightarrow> cfloat" where
  "session_progress rnd elapsed_ticks duration_ticks =
     (let progress = fdiv rnd (float_of_int rnd (uint elapsed_ticks))
                              (float_of_int rnd (uint duration_ticks))
      in if fgt progress (Fin 1) then Fin 1 else progress)"

text \<open>The session has run its time: drive the lens clear and raise \<open>session_ended\<close>.\<close>

definition session_complete :: "sys \<Rightarrow> sys" where
  "session_complete s =
     (let s1 = pwm1_setduty 0 s;
          s2 = s1\<lparr>session_active := 0\<rparr>
      in s2\<lparr>session_ended := 1\<rparr>)"

text \<open>The progress log every 30 seconds: only the static \<open>last_log\<close> is state.\<close>

definition log_progress :: "32 word \<Rightarrow> 32 word \<Rightarrow> sys \<Rightarrow> sys" where
  "log_progress tick now s =
     (if now - last_log s \<ge> 30000 div tick then s\<lparr>last_log := now\<rparr> else s)"

definition current_hz :: "rounding \<Rightarrow> sys \<Rightarrow> cfloat \<Rightarrow> cfloat" where
  "current_hz rnd s progress =
     (let hz = fadd rnd (float_of_int rnd (uint (start_hz s)))
                 (fmul rnd (float_of_int rnd (uint (end_hz s) - uint (start_hz s))) progress)
      in if flt hz (Fin 1) then Fin 1 else hz)"

definition phase_durations :: "32 word \<Rightarrow> sys \<Rightarrow> 8 word \<Rightarrow> 8 word \<Rightarrow> 32 word list" where
  "phase_durations tick s current_hold_in current_hold_out =
     [word_of_int (uint (inhale_time s) * 100) div tick,
      word_of_int (uint current_hold_in * 100) div tick,
      word_of_int (uint (exhale_time s) * 100) div tick,
      word_of_int (uint current_hold_out * 100) div tick]"

text \<open>
  The phase-advance loop, on \<open>(breath_phase, phase_start, breath_elapsed, phase_checks)\<close>.
  It reads \<open>phase_durations[breath_phase]\<close>, so it is meant for \<open>breath_phase < 4\<close>.
\<close>

type_synonym phase_vars = "8 word \<times> 32 word \<times> 32 word \<times> 8 word"

definition phase_due :: "32 word list \<Rightarrow> 8 word \<Rightarrow> 32 word \<Rightarrow> bool" where
  "phase_due durs phase elapsed \<longleftrightarrow>
     durs ! unat phase = 0 \<or> elapsed \<ge> durs ! unat phase"

definition next_phase :: "8 word \<Rightarrow> 8 word" where
  "next_phase phase = word_of_int ((uint phase + 1) mod 4)"

function advance_phase :: "32 word list \<Rightarrow> 32 word \<Rightarrow> phase_vars \<Rightarrow> phase_vars" where
  "advance_phase durs now (phase, pstart, elapsed, checks) =
     (if checks < 4 \<and> phase_due durs phase elapsed
      then advance_phase durs now (next_phase phase, now, 0, checks + 1)
      else (phase, pstart, elapsed, checks))"
  by pat_completeness auto
termination
proof (relation "measure (\<lambda>(durs, now, phase, pstart, elapsed, checks). 4 - unat checks)")
  show "wf (measure (\<lambda>(durs, now, phase, pstart, elapsed, checks). 4 - unat (checks :: 8 word)))"
    by simp
next
  fix durs :: "32 word list" and now pstart elapsed :: "32 word" and phase checks :: "8 word"
  assume "checks < 4 \<and> phase_due durs phase elapsed"
  then have "unat checks < 4"
    by (simp add: word_less_nat_alt)
  then have "unat (checks + 1) = unat checks + 1"
    by (simp add: unat_word_ariths)
  with \<open>unat checks < 4\<close>
  show "((durs, now, next_phase phase, now, 0, checks + 1), (durs, now, phase, pstart, elapsed, checks))
          \<in> measure (\<lambda>(durs, now, phase, pstart, elapsed, checks). 4 - unat checks)"
    by simp
qed

declare advance_phase.simps [simp del]

text \<open>\<open>bp\<close>: the fraction of the settled phase that has elapsed, capped at 1.\<close>

definition breath_fraction :: "rounding \<Rightarrow> 32 word \<Rightarrow> 32 word \<Rightarrow> cfloat" where
  "breath_fraction rnd breath_elapsed duration =
     (let bp = fdiv rnd (float_of_int rnd (uint breath_elapsed))
                        (float_of_int rnd (uint duration))
      in if fgt bp (Fin 1) then Fin 1 else bp)"

text \<open>The \<open>switch (breath_phase)\<close>; it has no \<open>default\<close>, so any other value keeps the old one.\<close>

definition phase_brightness :: "rounding \<Rightarrow> 8 word \<Rightarrow> cfloat \<Rightarrow> cfloat \<Rightarrow> cfloat" where
  "phase_brightness rnd phase bp old =
     (if phase = 0 then fmul rnd bp (Fin 100)
      else if phase = 1 then Fin 100
      else if phase = 2 then fmul rnd (fsub rnd (Fin 1) bp) (Fin 100)
      else if phase = 3 then Fin 0
      else old)"

definition final_duty :: "rounding \<Rightarrow> cfloat \<Rightarrow> 8 word \<Rightarrow> 8 word option" where
  "final_duty rnd bb bright =
     unsigned_of_float (fdiv rnd (fmul rnd bb (float_of_int rnd (uint bright))) (Fin 100))"

text \<open>The dark and the clear interval of one strobe cycle.\<close>

definition strobe :: "32 word \<Rightarrow> 32 word \<Rightarrow> 8 word \<Rightarrow> sys \<Rightarrow> sys" where
  "strobe tick strobe_delay_ms duty s =
     (let strobe_on_ms = strobe_delay_ms * 3 div 2;
          strobe_off_ms = strobe_delay_ms div 2;
          s1 = pwm1_setduty (ucast duty) s;
          s2 = hw (TaskDelay (strobe_on_ms div tick)) s1;
          s3 = pwm1_setduty 0 s2
      in hw (TaskDelay (strobe_off_ms div tick)) s3)"

text \<open>
  The breathing state after the phase-advance loop of an iteration: the four phase
  durations and the loop's final \<open>(breath_phase, phase_start, breath_elapsed, phase_checks)\<close>.
\<close>

definition breath_settle ::
  "32 word \<Rightarrow> rounding \<Rightarrow> 32 word \<Rightarrow> cfloat \<Rightarrow> sys \<Rightarrow> (32 word list \<times> phase_vars) option" where
  "breath_settle tick rnd now progress s = do {
     current_hold_in \<leftarrow> (unsigned_of_float
                           (fmul rnd (float_of_int rnd (uint (hold_in_end s))) progress)
                           :: 8 word option);
     current_hold_out \<leftarrow> (unsigned_of_float
                            (fmul rnd (float_of_int rnd (uint (hold_out_end s))) progress)
                            :: 8 word option);
     let durs = phase_durations tick s current_hold_in current_hold_out;
     if 4 \<le> breath_phase s then None
     else Some (durs, advance_phase durs now
                        (breath_phase s, phase_start s, now - phase_start s, 0))
   }"

text \<open>The rest of an iteration, once the session is known to be running.\<close>

definition led_modulate :: "32 word \<Rightarrow> rounding \<Rightarrow> 32 word \<Rightarrow> cfloat \<Rightarrow> sys \<Rightarrow> sys option" where
  "led_modulate tick rnd now progress s = do {
     strobe_delay_ms \<leftarrow> (unsigned_of_float (fdiv rnd (Fin 500) (current_hz rnd s progress))
                           :: 32 word option);
     (durs, phase, pstart, elapsed, checks) \<leftarrow> breath_settle tick rnd now progress s;
     let bp = breath_fraction rnd elapsed (durs ! unat phase);
     let bb = phase_brightness rnd phase bp (breath_brightness s);
     duty \<leftarrow> final_duty rnd bb (brightness s);
     Some (strobe tick strobe_delay_ms duty
             (s\<lparr>breath_phase := phase, phase_start := pstart, breath_brightness := bb\<rparr>))
   }"

definition led_iter :: "32 word \<Rightarrow> rounding \<Rightarrow> 32 word \<Rightarrow> sys \<Rightarrow> sys option" where
  "led_iter tick rnd now s =
     (if override_active s \<noteq> 0 then Some (hw (TaskDelay (100 div tick)) s)
      else if session_active s = 0 then Some (hw (TaskDelay (100 div tick)) s)
      else
        let duration_ticks = session_duration_ticks tick s;
            elapsed_ticks = now - session_start_tick s;
            progress = session_progress rnd elapsed_ticks duration_ticks
        in if elapsed_ticks \<ge> duration_ticks then Some (session_complete s)
           else led_modulate tick rnd now progress (log_progress tick now s))"

text \<open>
  The \<open>while (1)\<close> loop over its first iterations; the list holds the tick count read in
  each. An iteration that is undefined leaves the run undefined.
\<close>

fun led_task :: "32 word \<Rightarrow> rounding \<Rightarrow> 32 word list \<Rightarrow> sys \<Rightarrow> sys option" where
  "led_task tick rnd [] s = Some s"
| "led_task tick rnd (now # later) s =
     (case led_iter tick rnd now s of
        None \<Rightarrow> None
      | Some s1 \<Rightarrow> led_task tick rnd later s1)"

subsection \<open>Sleep\<close>

definition SLEEP_HALL_WAIT_TIME :: "32 word" where
  "SLEEP_HALL_WAIT_TIME = 5"

text \<open>\<open>esp_deep_sleep_start\<close> does not return: what follows a call in the source is not run.\<close>

definition enter_deep_sleep :: "sys \<Rightarrow> sys" where
  "enter_deep_sleep s = (hw DeepSleepStart (hw (LedcDuty 0) s))\<lparr>asleep := True\<rparr>"

definition check_sleep_condition :: "32 word \<Rightarrow> 32 word \<Rightarrow> int \<Rightarrow> sys \<Rightarrow> sys" where
  "check_sleep_condition tick current_time level s =
     (if current_time - last_check_time s < 1000 div tick then s
      else
        let s1 = s\<lparr>last_check_time := current_time\<rparr> in
        if session_ended s1 \<noteq> 0 then enter_deep_sleep s1
        else if level = 1 then
          let s2 = s1\<lparr>arms_closed_duration := arms_closed_duration s1 + 1\<rparr> in
          if arms_closed_duration s2 \<ge> SLEEP_HALL_WAIT_TIME then enter_deep_sleep s2 else s2
        else s1\<lparr>arms_closed_duration := 0\<rparr>)"

text \<open>
  The main loop of \<open>app_main\<close>: \<open>check_sleep_condition\<close>, then a delay of one second. The
  list holds, for each iteration, the tick count and the sensor level read in it.
\<close>

fun main_loop :: "32 word \<Rightarrow> (32 word \<times> int) list \<Rightarrow> sys \<Rightarrow> sys" where
  "main_loop tick [] s = s"
| "main_loop tick ((current_time, level) # rest) s =
     (let s1 = check_sleep_condition tick current_time level s in
      if asleep s1 then s1
      else main_loop tick rest (hw (TaskDelay (1000 div tick)) s1))"

text \<open>
  An iteration polls when at least a second has passed since the last poll; otherwise
  \<open>check_sleep_condition\<close> returns at once. \<open>polls_due\<close> says that every iteration of a
  run polls.
\<close>

fun polls_due :: "32 word \<Rightarrow> 32 word \<Rightarrow> (32 word \<times> int) list \<Rightarrow> bool" where
  "polls_due tick last_check [] = True"
| "polls_due tick last_check ((current_time, level) # rest) =
     (\<not> current_time - last_check < 1000 div tick \<and> polls_due tick current_time rest)"

subsection \<open>The system\<close>

text \<open>
  \<open>app_main\<close> starts a session at boot, at tick \<open>t0\<close>, and creates the LED task, which
  reads the tick count \<open>t1\<close> into \<open>phase_start\<close> before its loop.
\<close>

definition boot :: "32 word \<Rightarrow> 32 word \<Rightarrow> sys" where
  "boot t0 t1 =
     initial\<lparr>session_start_tick := t0, session_active := 1, session_ended := 0,
             phase_start := t1\<rparr>"

text \<open>
  What happens after boot: a write arrives, the LED task runs an iteration, or the main
  loop calls \<open>check_sleep_condition\<close>. Each is taken as one step.
\<close>

datatype event =
    Write "32 word" bool "8 word list"
  | LedIter "32 word"
  | SleepCheck "32 word" int

fun step :: "32 word \<Rightarrow> rounding \<Rightarrow> event \<Rightarrow> sys \<Rightarrow> sys option" where
  "step tick rnd (Write now need_rsp val) s = Some (gatts_write_evt now need_rsp val s)"
| "step tick rnd (LedIter now) s = led_iter tick rnd now s"
| "step tick rnd (SleepCheck now level) s = Some (check_sleep_condition tick now level s)"

inductive reachable :: "32 word \<Rightarrow> rounding \<Rightarrow> sys \<Rightarrow> bool" for tick rnd where
  reachable_boot: "reachable tick rnd (boot t0 t1)"
| reachable_step:
    "reachable tick rnd s \<Longrightarrow> \<not> asleep s \<Longrightarrow> step tick rnd e s = Some s'
       \<Longrightarrow> reachable tick rnd s'"

text \<open>
  The writes whose \<open>case\<close> assigns \<open>session_active = 1\<close> (0xA1, 0xA3, 0xA4 and 0xA6, each
  with its minimum length, in a payload of more than one byte), and the writes that reach
  \<open>case 0xA7\<close>.
\<close>

fun restart_command :: "event \<Rightarrow> bool" where
  "restart_command (Write now need_rsp val) =
     (2 \<le> length val \<and>
      (val ! 0 = 0xA1 \<and> 3 \<le> length val \<or> val ! 0 = 0xA3 \<and> 5 \<le> length val
       \<or> val ! 0 = 0xA4 \<or> val ! 0 = 0xA6))"
| "restart_command (LedIter now) = False"
| "restart_command (SleepCheck now level) = False"

fun sleep_command :: "event \<Rightarrow> bool" where
  "sleep_command (Write now need_rsp val) = (2 \<le> length val \<and> val ! 0 = 0xA7)"
| "sleep_command (LedIter now) = False"
| "sleep_command (SleepCheck now level) = False"

subsection \<open>The specification's wording, for comparison\<close>

text \<open>The specification gives the legacy duty as \<open>round(b\<cdot>100/255)\<close>.\<close>

definition spec_legacy_duty :: "8 word \<Rightarrow> int" where
  "spec_legacy_duty b = round (real_of_int (uint b) * 100 / 255)"

section \<open>Properties\<close>

subsection \<open>Dispatch of a write\<close>

lemma write_single:
  "gatts_write_evt now need_rsp [b] s = legacy_cmd b (send_response need_rsp s)"
  by (simp add: gatts_write_evt_def)

lemma write_multi:
  assumes "2 \<le> length val"
  shows "gatts_write_evt now need_rsp val s =
     (let s1 = send_response need_rsp s; cmd = val ! 0 in
          if cmd = 0xA1 then cmd_A1 now val s1
          else if cmd = 0xA2 then cmd_A2 val s1
          else if cmd = 0xA3 then cmd_A3 now val s1
          else if cmd = 0xA4 then cmd_A4 now val s1
          else if cmd = 0xA5 then cmd_A5 val s1
          else if cmd = 0xA6 then cmd_A6 now s1
          else if cmd = 0xA7 then cmd_A7 s1
          else s1)"
proof -
  from assms have "0 < length val" and "length val \<noteq> 1" by auto
  then show ?thesis
    unfolding gatts_write_evt_def Let_def by (simp only: if_True if_False)
qed

lemma send_response_fields [simp]:
  "brightness (send_response r s) = brightness s"
  "start_hz (send_response r s) = start_hz s"
  "end_hz (send_response r s) = end_hz s"
  "inhale_time (send_response r s) = inhale_time s"
  "exhale_time (send_response r s) = exhale_time s"
  "hold_in_end (send_response r s) = hold_in_end s"
  "hold_out_end (send_response r s) = hold_out_end s"
  "session_minutes (send_response r s) = session_minutes s"
  "session_start_tick (send_response r s) = session_start_tick s"
  "session_active (send_response r s) = session_active s"
  "session_ended (send_response r s) = session_ended s"
  "override_active (send_response r s) = override_active s"
  "override_duty (send_response r s) = override_duty s"
  "breath_phase (send_response r s) = breath_phase s"
  "phase_start (send_response r s) = phase_start s"
  "breath_brightness (send_response r s) = breath_brightness s"
  "last_log (send_response r s) = last_log s"
  "arms_closed_duration (send_response r s) = arms_closed_duration s"
  "last_check_time (send_response r s) = last_check_time s"
  "asleep (send_response r s) = asleep s"
  "calls (send_response r s) = calls s @ (if r then [GattsResponse] else [])"
  by (simp_all add: send_response_def hw_def)

lemma clamp_1_50:
  "(if (if (x :: 8 word) < 1 then 1 else x) > 50 then 50 else (if x < 1 then 1 else x))
     = max 1 (min 50 x)"
  by (auto simp: max_def min_def word_less_nat_alt word_le_nat_alt word_unat_eq_iff)

lemma cmd_A1_long:
  "3 \<le> length val \<Longrightarrow>
   cmd_A1 now val s =
     s\<lparr>start_hz := max 1 (min 50 (val ! 1)), end_hz := max 1 (min 50 (val ! 2)),
       override_active := 0, session_start_tick := now,
       session_active := 1, session_ended := 0\<rparr>"
  unfolding clamp_1_50 [symmetric]
  by (simp add: cmd_A1_def Let_def restart_session_def)

lemma legacy_duty_uint:
  "uint (word_of_int (uint (b :: 8 word) * 100 div 255) :: 8 word) = uint b * 100 div 255"
proof -
  have "uint b < 256" using uint_lt2p [of b] by simp
  moreover have "0 \<le> uint b" by simp
  ultimately have "0 \<le> uint b * 100 div 255" and "uint b * 100 div 255 < 256"
    by linarith+
  then show ?thesis
    by (simp add: uint_word_of_int)
qed

subsection \<open>The dead-zone remap\<close>

text \<open>
  C8. For a logical duty of 0 to 100 percent, \<open>pwm1_setduty\<close> writes one raw value to the
  LEDC channel: 0 for 0 percent, and \<open>400 + (1024 - 400) * percent / 100\<close> in integer
  arithmetic for 1 to 100 percent.
\<close>

theorem pwm1_setduty_remap:
  assumes "percent \<le> 100"
  shows "calls (pwm1_setduty percent s) = calls s @ [LedcDuty (pwm1_raw percent)]
       \<and> unat (pwm1_raw percent) =
           (if percent = 0 then 0 else 400 + (1024 - 400) * unat percent div 100)"
proof -
  from assms have "unat percent \<le> 100"
    by (simp add: word_le_nat_alt)
  then have "unat (pwm1_raw percent) =
           (if percent = 0 then 0 else 400 + (1024 - 400) * unat percent div 100)"
    by (simp add: pwm1_raw_def PWM_MIN_VISIBLE_def PWM_MAX_def unat_word_ariths unat_div)
  then show ?thesis
    by (simp add: pwm1_setduty_def hw_def)
qed

theorem pwm1_setduty_remap_witness:
  "(50 :: 32 word) \<le> 100
   \<and> calls (pwm1_setduty 50 initial) = [LedcDuty 712] \<and> unat (pwm1_raw 50) = 712"
proof -
  have h: "(50 :: 32 word) \<le> 100" by simp
  have "unat (pwm1_raw 50) = 712"
    using pwm1_setduty_remap [OF h, of initial] by simp
  then have "pwm1_raw 50 = 712"
    by (simp add: word_unat_eq_iff)
  with h \<open>unat (pwm1_raw 50) = 712\<close> pwm1_setduty_remap [OF h, of initial]
  show ?thesis by (simp add: initial_def)
qed

subsection \<open>Single-byte writes\<close>

text \<open>
  C4, as the specification states it, asks for the duty \<open>round(b\<cdot>100/255)\<close>. The handler
  divides integers, which discards the fraction: for the byte 2 it stores 0, where
  rounding gives 1.
\<close>

theorem legacy_duty_round_counterexample:
  "uint (override_duty (gatts_write_evt 0 False [2] initial)) \<noteq> spec_legacy_duty 2"
  by (simp add: write_single legacy_cmd_def pwm1_setduty_def hw_def send_response_def
      spec_legacy_duty_def round_def)

text \<open>
  C4, amended. For every single-byte payload \<open>b\<close> the handler stores the duty
  \<open>b\<cdot>100/255\<close> with the fraction discarded, sets \<open>override_active\<close>, clears
  \<open>session_active\<close>, and writes that duty to the actuator at once, after the response if
  one was asked for. The bytes 0x00 and 0xFF give the duties 0 and 100.
\<close>

theorem legacy_duty_truncates:
  "uint (override_duty (gatts_write_evt now need_rsp [b] s)) = uint b * 100 div 255
   \<and> override_active (gatts_write_evt now need_rsp [b] s) = 1
   \<and> session_active (gatts_write_evt now need_rsp [b] s) = 0
   \<and> calls (gatts_write_evt now need_rsp [b] s) =
       calls s @ (if need_rsp then [GattsResponse] else [])
         @ [LedcDuty (pwm1_raw (ucast (override_duty (gatts_write_evt now need_rsp [b] s))))]"
  unfolding write_single
  using legacy_duty_uint [of b]
  by (simp add: legacy_cmd_def pwm1_setduty_def hw_def)

theorem legacy_duty_truncates_witness:
  "uint (override_duty (gatts_write_evt 0 False [0x00] initial)) = 0
   \<and> uint (override_duty (gatts_write_evt 0 False [0xFF] initial)) = 100
   \<and> uint (override_duty (gatts_write_evt 0 False [0x02] initial)) = 0"
  using legacy_duty_truncates [of 0 False "0x00" initial]
    legacy_duty_truncates [of 0 False "0xFF" initial]
    legacy_duty_truncates [of 0 False "0x02" initial]
  by simp

subsection \<open>The strobe range command\<close>

text \<open>
  C7. For every payload of at least three bytes whose first byte is 0xA1, the handler
  stores bytes 1 and 2, each clamped to 1..50, in \<open>start_hz\<close> and \<open>end_hz\<close>, clears the
  override, sets the session active, clears \<open>session_ended\<close> and sets the session start to
  the current tick. So \<open>A1 05 3C\<close> stores \<open>end_hz = 50\<close> and \<open>A1 00 0A\<close> stores
  \<open>start_hz = 1\<close>.
\<close>

theorem strobe_range_clamped:
  assumes "3 \<le> length val" and "val ! 0 = 0xA1"
  shows "start_hz (gatts_write_evt now need_rsp val s) = max 1 (min 50 (val ! 1))
       \<and> end_hz (gatts_write_evt now need_rsp val s) = max 1 (min 50 (val ! 2))
       \<and> override_active (gatts_write_evt now need_rsp val s) = 0
       \<and> session_active (gatts_write_evt now need_rsp val s) = 1
       \<and> session_ended (gatts_write_evt now need_rsp val s) = 0
       \<and> session_start_tick (gatts_write_evt now need_rsp val s) = now"
  using assms by (simp add: write_multi cmd_A1_long)

theorem strobe_range_clamped_witness:
  "start_hz (gatts_write_evt 9 True [0xA1, 5, 60] initial) = 5
   \<and> end_hz (gatts_write_evt 9 True [0xA1, 5, 60] initial) = 50
   \<and> start_hz (gatts_write_evt 9 True [0xA1, 0, 10] initial) = 1
   \<and> end_hz (gatts_write_evt 9 True [0xA1, 0, 10] initial) = 10
   \<and> session_active (gatts_write_evt 9 True [0xA1, 5, 60] initial) = 1
   \<and> session_start_tick (gatts_write_evt 9 True [0xA1, 5, 60] initial) = 9"
proof -
  have a: "3 \<le> length [0xA1, 5, 60 :: 8 word]" and b: "[0xA1, 5, 60 :: 8 word] ! 0 = 0xA1"
    and c: "3 \<le> length [0xA1, 0, 10 :: 8 word]" and d: "[0xA1, 0, 10 :: 8 word] ! 0 = 0xA1"
    by simp_all
  show ?thesis
    using strobe_range_clamped [OF a b, of 9 True initial]
      strobe_range_clamped [OF c d, of 9 True initial]
    by simp
qed

subsection \<open>Resume and sleep commands\<close>

text \<open>
  C1, as stated, has the 0xA6 and 0xA7 cases apply to a payload of length 1 as well. A
  single byte never reaches the \<open>switch\<close>: it is taken as a legacy duty. After boot, the
  single byte 0xA6 stops the session and starts an override; the single byte 0xA7 leaves
  \<open>session_ended\<close> clear and writes to the actuator.
\<close>

theorem single_byte_A6_A7_counterexample:
  "\<not> (override_active (gatts_write_evt 7 False [0xA6] (boot 0 0)) = 0
      \<and> session_active (gatts_write_evt 7 False [0xA6] (boot 0 0)) = 1
      \<and> session_ended (gatts_write_evt 7 False [0xA6] (boot 0 0)) = 0
      \<and> session_start_tick (gatts_write_evt 7 False [0xA6] (boot 0 0)) = 7)
   \<and> \<not> (session_ended (gatts_write_evt 7 False [0xA7] (boot 0 0)) = 1
      \<and> calls (gatts_write_evt 7 False [0xA7] (boot 0 0)) = calls (boot 0 0))"
  by (simp add: write_single legacy_cmd_def pwm1_setduty_def hw_def send_response_def
      boot_def initial_def)

text \<open>
  C1, amended. For every write of at least two bytes whose first byte is 0xA6, the handler
  clears the override, sets the session active, clears \<open>session_ended\<close> and sets the session
  start to the current tick. For every write of at least two bytes whose first byte is
  0xA7, it sets \<open>session_ended\<close> and changes nothing else: the actuator is not written. A
  write of the single byte 0xA6 or 0xA7 is a legacy duty command.
\<close>

theorem resume_and_sleep_commands:
  "(2 \<le> length val \<and> val ! 0 = 0xA6 \<longrightarrow>
      gatts_write_evt now need_rsp val s =
        (send_response need_rsp s)\<lparr>override_active := 0, session_start_tick := now,
           session_active := 1, session_ended := 0\<rparr>)
   \<and> (2 \<le> length val \<and> val ! 0 = 0xA7 \<longrightarrow>
      gatts_write_evt now need_rsp val s = (send_response need_rsp s)\<lparr>session_ended := 1\<rparr>
      \<and> calls (gatts_write_evt now need_rsp val s) =
          calls s @ (if need_rsp then [GattsResponse] else []))
   \<and> gatts_write_evt now need_rsp [0xA6] s = legacy_cmd 0xA6 (send_response need_rsp s)
   \<and> gatts_write_evt now need_rsp [0xA7] s = legacy_cmd 0xA7 (send_response need_rsp s)"
  by (simp add: write_multi write_single cmd_A6_def cmd_A7_def restart_session_def)

theorem resume_and_sleep_commands_witness:
  "override_active (gatts_write_evt 7 False [0xA6, 0] (boot 0 0)) = 0
   \<and> session_active (gatts_write_evt 7 False [0xA6, 0] (boot 0 0)) = 1
   \<and> session_ended (gatts_write_evt 7 False [0xA6, 0] (boot 0 0)) = 0
   \<and> session_start_tick (gatts_write_evt 7 False [0xA6, 0] (boot 0 0)) = 7
   \<and> session_ended (gatts_write_evt 7 False [0xA7, 0] (boot 0 0)) = 1
   \<and> calls (gatts_write_evt 7 False [0xA7, 0] (boot 0 0)) = []"
  using resume_and_sleep_commands [of "[0xA6, 0]" 7 False "boot 0 0"]
    resume_and_sleep_commands [of "[0xA7, 0]" 7 False "boot 0 0"]
  by (simp add: boot_def initial_def)

subsection \<open>Sleep on the Hall sensor\<close>

lemma word32_less_5:
  "(c :: 32 word) < 5 \<Longrightarrow> c = 0 \<or> c = 1 \<or> c = 2 \<or> c = 3 \<or> c = 4"
  by (auto simp: word_less_nat_alt word_unat_eq_iff)

lemma wait_time_not_reached [simp]:
  "\<not> (5 :: 32 word) \<le> 1" "\<not> (5 :: 32 word) \<le> 2"
  "\<not> (5 :: 32 word) \<le> 3" "\<not> (5 :: 32 word) \<le> 4"
  by (simp_all add: word_le_nat_alt)

lemma poll_closed:
  assumes "\<not> t - last_check_time s < 1000 div tick" and "session_ended s = 0"
  shows "check_sleep_condition tick t 1 s =
     (if 5 \<le> arms_closed_duration s + 1
      then enter_deep_sleep
             (s\<lparr>last_check_time := t, arms_closed_duration := arms_closed_duration s + 1\<rparr>)
      else s\<lparr>last_check_time := t, arms_closed_duration := arms_closed_duration s + 1\<rparr>)"
  using assms by (simp add: check_sleep_condition_def Let_def SLEEP_HALL_WAIT_TIME_def)

lemma poll_open:
  assumes "\<not> t - last_check_time s < 1000 div tick" and "session_ended s = 0"
    and "level \<noteq> 1"
  shows "check_sleep_condition tick t level s =
           s\<lparr>last_check_time := t, arms_closed_duration := 0\<rparr>"
  using assms by (simp add: check_sleep_condition_def Let_def)

lemma poll_ended:
  assumes "\<not> t - last_check_time s < 1000 div tick" and "session_ended s \<noteq> 0"
  shows "check_sleep_condition tick t level s = enter_deep_sleep (s\<lparr>last_check_time := t\<rparr>)"
  using assms by (simp add: check_sleep_condition_def Let_def)

lemma five_closed_polls:
  assumes "\<not> asleep s" and "arms_closed_duration s < 5"
    and "polls_due tick (last_check_time s) [(t1, 1), (t2, 1), (t3, 1), (t4, 1), (t5, 1)]"
  shows "asleep (main_loop tick [(t1, 1), (t2, 1), (t3, 1), (t4, 1), (t5, 1)] s)"
proof (cases "session_ended s = 0")
  case False
  with assms show ?thesis
    by (simp add: poll_ended enter_deep_sleep_def hw_def Let_def)
next
  case True
  from word32_less_5 [OF assms(2)] show ?thesis
  proof (elim disjE)
    assume "arms_closed_duration s = 0"
    with True assms show ?thesis
      by (simp add: poll_closed enter_deep_sleep_def hw_def Let_def)
  next
    assume "arms_closed_duration s = 1"
    with True assms show ?thesis
      by (simp add: poll_closed enter_deep_sleep_def hw_def Let_def)
  next
    assume "arms_closed_duration s = 2"
    with True assms show ?thesis
      by (simp add: poll_closed enter_deep_sleep_def hw_def Let_def)
  next
    assume "arms_closed_duration s = 3"
    with True assms show ?thesis
      by (simp add: poll_closed enter_deep_sleep_def hw_def Let_def)
  next
    assume "arms_closed_duration s = 4"
    with True assms show ?thesis
      by (simp add: poll_closed enter_deep_sleep_def hw_def Let_def)
  qed
qed

lemma four_closed_polls:
  assumes "\<not> asleep s" and "session_ended s = 0" and "arms_closed_duration s = 0"
    and "polls_due tick (last_check_time s) [(t1, 1), (t2, 1), (t3, 1), (t4, 1)]"
  shows "main_loop tick [(t1, 1), (t2, 1), (t3, 1), (t4, 1)] s =
    s\<lparr>last_check_time := t4, arms_closed_duration := 4,
      calls := calls s @ [TaskDelay (1000 div tick), TaskDelay (1000 div tick),
         TaskDelay (1000 div tick), TaskDelay (1000 div tick)]\<rparr>"
  using assms
  by (simp add: poll_closed hw_def Let_def)

lemma four_closed_then_open:
  assumes "\<not> asleep s" and "session_ended s = 0" and "arms_closed_duration s = 0"
    and "polls_due tick (last_check_time s) [(t1, 1), (t2, 1), (t3, 1), (t4, 1), (t5, level)]"
    and "level \<noteq> 1"
  shows "main_loop tick [(t1, 1), (t2, 1), (t3, 1), (t4, 1), (t5, level)] s =
    s\<lparr>last_check_time := t5, arms_closed_duration := 0,
      calls := calls s @ [TaskDelay (1000 div tick), TaskDelay (1000 div tick),
         TaskDelay (1000 div tick), TaskDelay (1000 div tick), TaskDelay (1000 div tick)]\<rparr>"
  using assms
  by (simp add: poll_closed poll_open hw_def Let_def)

lemma enter_deep_sleep_calls:
  "calls (enter_deep_sleep s) = calls s @ [LedcDuty 0, DeepSleepStart]"
  "asleep (enter_deep_sleep s)"
  by (simp_all add: enter_deep_sleep_def hw_def)

lemma poll_sleeps_calls:
  assumes "\<not> asleep s" and "asleep (check_sleep_condition tick t level s)"
  shows "calls (check_sleep_condition tick t level s) = calls s @ [LedcDuty 0, DeepSleepStart]"
  using assms
  by (auto simp: check_sleep_condition_def enter_deep_sleep_def hw_def Let_def split: if_splits)

lemma five_closed_polls_calls:
  assumes "\<not> asleep s" and "arms_closed_duration s < 5"
    and "polls_due tick (last_check_time s) [(t1, 1), (t2, 1), (t3, 1), (t4, 1), (t5, 1)]"
  shows "\<exists>k\<le>4. calls (main_loop tick [(t1, 1), (t2, 1), (t3, 1), (t4, 1), (t5, 1)] s) =
           calls s @ replicate k (TaskDelay (1000 div tick)) @ [LedcDuty 0, DeepSleepStart]"
proof (cases "session_ended s = 0")
  case False
  with assms have "calls (main_loop tick [(t1, 1), (t2, 1), (t3, 1), (t4, 1), (t5, 1)] s) =
           calls s @ replicate 0 (TaskDelay (1000 div tick)) @ [LedcDuty 0, DeepSleepStart]"
    by (simp add: poll_ended enter_deep_sleep_def hw_def Let_def)
  then show ?thesis by blast
next
  case True
  from word32_less_5 [OF assms(2)] show ?thesis
  proof (elim disjE)
    assume "arms_closed_duration s = 0"
    with True assms
    have "calls (main_loop tick [(t1, 1), (t2, 1), (t3, 1), (t4, 1), (t5, 1)] s) =
           calls s @ replicate (Suc (Suc (Suc (Suc 0)))) (TaskDelay (1000 div tick))
             @ [LedcDuty 0, DeepSleepStart]"
      by (simp add: poll_closed enter_deep_sleep_def hw_def Let_def)
    moreover have "Suc (Suc (Suc (Suc 0))) \<le> 4" by simp
    ultimately show ?thesis by blast
  next
    assume "arms_closed_duration s = 1"
    with True assms
    have "calls (main_loop tick [(t1, 1), (t2, 1), (t3, 1), (t4, 1), (t5, 1)] s) =
           calls s @ replicate (Suc (Suc (Suc 0))) (TaskDelay (1000 div tick))
             @ [LedcDuty 0, DeepSleepStart]"
      by (simp add: poll_closed enter_deep_sleep_def hw_def Let_def)
    moreover have "Suc (Suc (Suc 0)) \<le> 4" by simp
    ultimately show ?thesis by blast
  next
    assume "arms_closed_duration s = 2"
    with True assms
    have "calls (main_loop tick [(t1, 1), (t2, 1), (t3, 1), (t4, 1), (t5, 1)] s) =
           calls s @ replicate (Suc (Suc 0)) (TaskDelay (1000 div tick))
             @ [LedcDuty 0, DeepSleepStart]"
      by (simp add: poll_closed enter_deep_sleep_def hw_def Let_def)
    moreover have "Suc (Suc 0) \<le> 4" by simp
    ultimately show ?thesis by blast
  next
    assume "arms_closed_duration s = 3"
    with True assms
    have "calls (main_loop tick [(t1, 1), (t2, 1), (t3, 1), (t4, 1), (t5, 1)] s) =
           calls s @ replicate (Suc 0) (TaskDelay (1000 div tick))
             @ [LedcDuty 0, DeepSleepStart]"
      by (simp add: poll_closed enter_deep_sleep_def hw_def Let_def)
    moreover have "Suc 0 \<le> 4" by simp
    ultimately show ?thesis by blast
  next
    assume "arms_closed_duration s = 4"
    with True assms
    have "calls (main_loop tick [(t1, 1), (t2, 1), (t3, 1), (t4, 1), (t5, 1)] s) =
           calls s @ replicate 0 (TaskDelay (1000 div tick))
             @ [LedcDuty 0, DeepSleepStart]"
      by (simp add: poll_closed enter_deep_sleep_def hw_def Let_def)
    then show ?thesis by blast
  qed
qed

lemma five_closed_from_zero:
  assumes "\<not> asleep s" and "session_ended s = 0" and "arms_closed_duration s = 0"
    and "polls_due tick (last_check_time s) [(t1, 1), (t2, 1), (t3, 1), (t4, 1), (t5, 1)]"
  shows "main_loop tick [(t1, 1), (t2, 1), (t3, 1), (t4, 1), (t5, 1)] s =
    s\<lparr>last_check_time := t5, arms_closed_duration := 5, asleep := True,
      calls := calls s @ [TaskDelay (1000 div tick), TaskDelay (1000 div tick),
         TaskDelay (1000 div tick), TaskDelay (1000 div tick), LedcDuty 0, DeepSleepStart]\<rparr>"
  using assms
  by (simp add: poll_closed enter_deep_sleep_def hw_def Let_def)

text \<open>
  C9. Take runs of the main loop in which every iteration polls (a second or more since
  the last poll). If the device is awake, with a count below 5 as in every reachable
  state that is awake, and the sensor reads closed (level 1) in five consecutive polls,
  the fifth poll at the latest enters deep sleep: after at most four delays of the main
  loop the raw duty 0 is written to the LEDC channel and \<open>esp_deep_sleep_start\<close> is
  called, and nothing runs after it. Starting from a count of 0 with \<open>session_ended\<close>
  clear, it is the fifth poll that does so, with the count at 5. Whenever a poll enters
  deep sleep, these two calls are what it adds. A poll that reads the sensor open sets
  \<open>arms_closed_duration\<close> to 0, makes no call and does not enter deep sleep; the sensor
  is read only while \<open>session_ended\<close> is clear. Starting from a count of 0, four closed
  polls do not enter deep sleep, and four closed polls followed by an open one leave the
  device awake with the count back at 0.
\<close>

theorem hall_debounce:
  "(\<not> asleep s \<and> arms_closed_duration s < SLEEP_HALL_WAIT_TIME
      \<and> polls_due tick (last_check_time s) [(t1, 1), (t2, 1), (t3, 1), (t4, 1), (t5, 1)]
     \<longrightarrow> asleep (main_loop tick [(t1, 1), (t2, 1), (t3, 1), (t4, 1), (t5, 1)] s)
        \<and> (\<exists>k\<le>4. calls (main_loop tick [(t1, 1), (t2, 1), (t3, 1), (t4, 1), (t5, 1)] s) =
              calls s @ replicate k (TaskDelay (1000 div tick))
                @ [LedcDuty 0, DeepSleepStart]))
   \<and> (\<not> asleep s \<and> session_ended s = 0 \<and> arms_closed_duration s = 0
      \<and> polls_due tick (last_check_time s) [(t1, 1), (t2, 1), (t3, 1), (t4, 1), (t5, 1)]
     \<longrightarrow> main_loop tick [(t1, 1), (t2, 1), (t3, 1), (t4, 1), (t5, 1)] s =
          s\<lparr>last_check_time := t5, arms_closed_duration := 5, asleep := True,
            calls := calls s @ [TaskDelay (1000 div tick), TaskDelay (1000 div tick),
              TaskDelay (1000 div tick), TaskDelay (1000 div tick),
              LedcDuty 0, DeepSleepStart]\<rparr>)
   \<and> (\<not> asleep s \<and> asleep (check_sleep_condition tick t level s)
     \<longrightarrow> calls (check_sleep_condition tick t level s)
           = calls s @ [LedcDuty 0, DeepSleepStart])
   \<and> (\<not> asleep s \<and> session_ended s = 0 \<and> \<not> t - last_check_time s < 1000 div tick
        \<and> level \<noteq> 1
     \<longrightarrow> arms_closed_duration (check_sleep_condition tick t level s) = 0
        \<and> \<not> asleep (check_sleep_condition tick t level s)
        \<and> calls (check_sleep_condition tick t level s) = calls s)
   \<and> (\<not> asleep s \<and> session_ended s = 0 \<and> arms_closed_duration s = 0
        \<and> polls_due tick (last_check_time s) [(t1, 1), (t2, 1), (t3, 1), (t4, 1), (t5, level)]
        \<and> level \<noteq> 1
     \<longrightarrow> \<not> asleep (main_loop tick [(t1, 1), (t2, 1), (t3, 1), (t4, 1)] s)
        \<and> arms_closed_duration (main_loop tick [(t1, 1), (t2, 1), (t3, 1), (t4, 1)] s) = 4
        \<and> \<not> asleep (main_loop tick [(t1, 1), (t2, 1), (t3, 1), (t4, 1), (t5, level)] s)
        \<and> arms_closed_duration
             (main_loop tick [(t1, 1), (t2, 1), (t3, 1), (t4, 1), (t5, level)] s) = 0
        \<and> DeepSleepStart \<notin> set (calls
             (main_loop tick [(t1, 1), (t2, 1), (t3, 1), (t4, 1), (t5, level)] s))
           - set (calls s))"
proof (intro conjI impI)
  assume a: "\<not> asleep s \<and> arms_closed_duration s < SLEEP_HALL_WAIT_TIME
      \<and> polls_due tick (last_check_time s) [(t1, 1), (t2, 1), (t3, 1), (t4, 1), (t5, 1)]"
  then show "asleep (main_loop tick [(t1, 1), (t2, 1), (t3, 1), (t4, 1), (t5, 1)] s)"
    using five_closed_polls [of s tick t1 t2 t3 t4 t5]
    by (simp add: SLEEP_HALL_WAIT_TIME_def)
  from a show "\<exists>k\<le>4. calls (main_loop tick [(t1, 1), (t2, 1), (t3, 1), (t4, 1), (t5, 1)] s) =
              calls s @ replicate k (TaskDelay (1000 div tick))
                @ [LedcDuty 0, DeepSleepStart]"
    using five_closed_polls_calls [of s tick t1 t2 t3 t4 t5]
    by (simp add: SLEEP_HALL_WAIT_TIME_def)
next
  assume "\<not> asleep s \<and> session_ended s = 0 \<and> arms_closed_duration s = 0
      \<and> polls_due tick (last_check_time s) [(t1, 1), (t2, 1), (t3, 1), (t4, 1), (t5, 1)]"
  then show "main_loop tick [(t1, 1), (t2, 1), (t3, 1), (t4, 1), (t5, 1)] s =
          s\<lparr>last_check_time := t5, arms_closed_duration := 5, asleep := True,
            calls := calls s @ [TaskDelay (1000 div tick), TaskDelay (1000 div tick),
              TaskDelay (1000 div tick), TaskDelay (1000 div tick),
              LedcDuty 0, DeepSleepStart]\<rparr>"
    using five_closed_from_zero [of s tick t1 t2 t3 t4 t5] by simp
next
  assume "\<not> asleep s \<and> asleep (check_sleep_condition tick t level s)"
  then show "calls (check_sleep_condition tick t level s)
           = calls s @ [LedcDuty 0, DeepSleepStart]"
    using poll_sleeps_calls [of s tick t level] by simp
next
  assume a: "\<not> asleep s \<and> session_ended s = 0 \<and> \<not> t - last_check_time s < 1000 div tick
        \<and> level \<noteq> 1"
  then have "check_sleep_condition tick t level s
               = s\<lparr>last_check_time := t, arms_closed_duration := 0\<rparr>"
    by (simp add: poll_open)
  with a show "arms_closed_duration (check_sleep_condition tick t level s) = 0"
    and "\<not> asleep (check_sleep_condition tick t level s)"
    and "calls (check_sleep_condition tick t level s) = calls s"
    by simp_all
next
  assume a: "\<not> asleep s \<and> session_ended s = 0 \<and> arms_closed_duration s = 0
        \<and> polls_due tick (last_check_time s) [(t1, 1), (t2, 1), (t3, 1), (t4, 1), (t5, level)]
        \<and> level \<noteq> 1"
  then have due4: "polls_due tick (last_check_time s) [(t1, 1), (t2, 1), (t3, 1), (t4, 1)]"
    by simp
  from a have four: "main_loop tick [(t1, 1), (t2, 1), (t3, 1), (t4, 1)] s =
    s\<lparr>last_check_time := t4, arms_closed_duration := 4,
      calls := calls s @ [TaskDelay (1000 div tick), TaskDelay (1000 div tick),
         TaskDelay (1000 div tick), TaskDelay (1000 div tick)]\<rparr>"
    using four_closed_polls [OF _ _ _ due4] by simp
  from a have five: "main_loop tick [(t1, 1), (t2, 1), (t3, 1), (t4, 1), (t5, level)] s =
    s\<lparr>last_check_time := t5, arms_closed_duration := 0,
      calls := calls s @ [TaskDelay (1000 div tick), TaskDelay (1000 div tick),
         TaskDelay (1000 div tick), TaskDelay (1000 div tick), TaskDelay (1000 div tick)]\<rparr>"
    using four_closed_then_open [of s tick t1 t2 t3 t4 t5 level] by simp
  from a show "\<not> asleep (main_loop tick [(t1, 1), (t2, 1), (t3, 1), (t4, 1)] s)"
    unfolding four by simp
  show "arms_closed_duration (main_loop tick [(t1, 1), (t2, 1), (t3, 1), (t4, 1)] s) = 4"
    unfolding four by simp
  from a show "\<not> asleep (main_loop tick [(t1, 1), (t2, 1), (t3, 1), (t4, 1), (t5, level)] s)"
    unfolding five by simp
  show "arms_closed_duration
          (main_loop tick [(t1, 1), (t2, 1), (t3, 1), (t4, 1), (t5, level)] s) = 0"
    unfolding five by simp
  show "DeepSleepStart \<notin> set (calls
          (main_loop tick [(t1, 1), (t2, 1), (t3, 1), (t4, 1), (t5, level)] s)) - set (calls s)"
    unfolding five by simp
qed

theorem hall_debounce_witness:
  "asleep (main_loop 10 [(100, 1), (200, 1), (300, 1), (400, 1), (500, 1)] (boot 0 0))
   \<and> main_loop 10 [(100, 1), (200, 1), (300, 1), (400, 1), (500, 1)] (boot 0 0) =
       (boot 0 0)\<lparr>last_check_time := 500, arms_closed_duration := 5, asleep := True,
          calls := [TaskDelay 100, TaskDelay 100, TaskDelay 100, TaskDelay 100,
                    LedcDuty 0, DeepSleepStart]\<rparr>
   \<and> calls (check_sleep_condition 10 500 0 ((boot 0 0)\<lparr>session_ended := 1\<rparr>))
       = [LedcDuty 0, DeepSleepStart]
   \<and> arms_closed_duration (check_sleep_condition 10 500 0 (boot 0 0)) = 0
   \<and> calls (check_sleep_condition 10 500 0 (boot 0 0)) = []
   \<and> \<not> asleep (main_loop 10 [(100, 1), (200, 1), (300, 1), (400, 1)] (boot 0 0))
   \<and> \<not> asleep (main_loop 10 [(100, 1), (200, 1), (300, 1), (400, 1), (500, 0)] (boot 0 0))
   \<and> arms_closed_duration
        (main_loop 10 [(100, 1), (200, 1), (300, 1), (400, 1), (500, 0)] (boot 0 0)) = 0"
proof -
  have awake: "\<not> asleep (boot 0 0)" and ended: "session_ended (boot 0 0) = 0"
    and count: "arms_closed_duration (boot 0 0) = 0"
    and last: "last_check_time (boot 0 0) = 0"
    and nocalls: "calls (boot 0 0) = []"
    by (simp_all add: boot_def initial_def)
  have lt: "arms_closed_duration (boot 0 0) < SLEEP_HALL_WAIT_TIME"
    by (simp add: count SLEEP_HALL_WAIT_TIME_def)
  have sec: "(1000 :: 32 word) div 10 = 100"
    by simp
  have closed: "polls_due 10 (last_check_time (boot 0 0))
                  [(100, 1), (200, 1), (300, 1), (400, 1), (500, 1)]"
    and opened: "polls_due 10 (last_check_time (boot 0 0))
                  [(100, 1), (200, 1), (300, 1), (400, 1), (500, 0)]"
    and single: "\<not> (500 :: 32 word) - last_check_time (boot 0 0) < 1000 div 10"
    by (simp_all add: last sec)
  have neq: "(0 :: int) \<noteq> 1" by simp
  have awake': "\<not> asleep ((boot 0 0)\<lparr>session_ended := 1\<rparr>)"
    and nocalls': "calls ((boot 0 0)\<lparr>session_ended := 1\<rparr>) = []"
    by (simp_all add: boot_def initial_def)
  have sleeps: "asleep (check_sleep_condition 10 500 0 ((boot 0 0)\<lparr>session_ended := 1\<rparr>))"
    by (simp add: check_sleep_condition_def enter_deep_sleep_def hw_def Let_def
        boot_def initial_def)
  note w1 = hall_debounce [where s = "boot 0 0" and tick = 10 and ?t1.0 = 100
      and ?t2.0 = 200 and ?t3.0 = 300 and ?t4.0 = 400 and ?t5.0 = 500 and t = 500
      and level = 0]
  note w2 = hall_debounce [where s = "(boot 0 0)\<lparr>session_ended := 1\<rparr>" and tick = 10
      and t = 500 and level = 0]
  from w1 awake lt closed
  have "asleep (main_loop 10 [(100, 1), (200, 1), (300, 1), (400, 1), (500, 1)] (boot 0 0))"
    by blast
  moreover from w1 awake ended count closed
  have "main_loop 10 [(100, 1), (200, 1), (300, 1), (400, 1), (500, 1)] (boot 0 0) =
       (boot 0 0)\<lparr>last_check_time := 500, arms_closed_duration := 5, asleep := True,
          calls := calls (boot 0 0) @ [TaskDelay (1000 div 10), TaskDelay (1000 div 10),
                    TaskDelay (1000 div 10), TaskDelay (1000 div 10),
                    LedcDuty 0, DeepSleepStart]\<rparr>"
    by blast
  then have "main_loop 10 [(100, 1), (200, 1), (300, 1), (400, 1), (500, 1)] (boot 0 0) =
       (boot 0 0)\<lparr>last_check_time := 500, arms_closed_duration := 5, asleep := True,
          calls := [TaskDelay 100, TaskDelay 100, TaskDelay 100, TaskDelay 100,
                    LedcDuty 0, DeepSleepStart]\<rparr>"
    by (simp only: nocalls sec append_Nil)
  moreover from w2 awake' sleeps
  have "calls (check_sleep_condition 10 500 0 ((boot 0 0)\<lparr>session_ended := 1\<rparr>))
       = calls ((boot 0 0)\<lparr>session_ended := 1\<rparr>) @ [LedcDuty 0, DeepSleepStart]"
    by blast
  then have "calls (check_sleep_condition 10 500 0 ((boot 0 0)\<lparr>session_ended := 1\<rparr>))
       = [LedcDuty 0, DeepSleepStart]"
    by (simp only: nocalls' append_Nil)
  moreover from w1 awake ended single neq
  have "arms_closed_duration (check_sleep_condition 10 500 0 (boot 0 0)) = 0
     \<and> calls (check_sleep_condition 10 500 0 (boot 0 0)) = calls (boot 0 0)"
    by blast
  then have "arms_closed_duration (check_sleep_condition 10 500 0 (boot 0 0)) = 0
     \<and> calls (check_sleep_condition 10 500 0 (boot 0 0)) = []"
    by (simp only: nocalls)
  moreover from w1 awake ended count opened neq
  have "\<not> asleep (main_loop 10 [(100, 1), (200, 1), (300, 1), (400, 1)] (boot 0 0))
     \<and> \<not> asleep (main_loop 10 [(100, 1), (200, 1), (300, 1), (400, 1), (500, 0)] (boot 0 0))
     \<and> arms_closed_duration
        (main_loop 10 [(100, 1), (200, 1), (300, 1), (400, 1), (500, 0)] (boot 0 0)) = 0"
    by blast
  ultimately show ?thesis by blast
qed

subsection \<open>Session completion\<close>

lemma led_iter_idle:
  "override_active s \<noteq> 0 \<or> session_active s = 0 \<Longrightarrow>
     led_iter tick rnd now s = Some (hw (TaskDelay (100 div tick)) s)"
  by (auto simp: led_iter_def)

lemma led_task_idle:
  "override_active s \<noteq> 0 \<or> session_active s = 0 \<Longrightarrow>
     led_task tick rnd nows s =
       Some (s\<lparr>calls := calls s @ replicate (length nows) (TaskDelay (100 div tick))\<rparr>)"
proof (induction nows arbitrary: s)
  case Nil
  then show ?case by simp
next
  case (Cons now nows)
  let ?s1 = "hw (TaskDelay (100 div tick)) s"
  from Cons.prems have idle: "override_active ?s1 \<noteq> 0 \<or> session_active ?s1 = 0"
    by (simp add: hw_def)
  from Cons.prems have "led_task tick rnd (now # nows) s = led_task tick rnd nows ?s1"
    by (simp add: led_iter_idle)
  also have "\<dots> = Some (?s1\<lparr>calls := calls ?s1
                         @ replicate (length nows) (TaskDelay (100 div tick))\<rparr>)"
    by (rule Cons.IH [OF idle])
  finally show ?case
    by (simp add: hw_def)
qed

lemma led_iter_complete:
  assumes "override_active s = 0" and "session_active s \<noteq> 0"
    and "session_duration_ticks tick s \<le> now - session_start_tick s"
  shows "led_iter tick rnd now s = Some (session_complete s)"
  using assms by (simp add: led_iter_def Let_def)

lemma session_complete_eq:
  "session_complete s =
     s\<lparr>session_active := 0, session_ended := 1, calls := calls s @ [LedcDuty 0]\<rparr>"
  by (simp add: session_complete_def pwm1_setduty_def pwm1_raw_def hw_def)

text \<open>
  C6. Let a session be active and not overridden, and let the LED task read a tick count
  \<open>now\<close> at which the ticks elapsed since the session start are at least the configured
  duration (equal counts as complete). Then that iteration writes raw duty 0 to the
  actuator, clears \<open>session_active\<close> and sets \<open>session_ended\<close>; every later iteration, at
  whatever tick counts, only delays: no further actuator write and no further change of
  the state.
\<close>

theorem session_completes_once:
  assumes "override_active s = 0" and "session_active s \<noteq> 0"
    and "session_duration_ticks tick s \<le> now - session_start_tick s"
  shows "led_task tick rnd (now # later) s =
     Some (s\<lparr>session_active := 0, session_ended := 1,
             calls := calls s
               @ LedcDuty 0 # replicate (length later) (TaskDelay (100 div tick))\<rparr>)"
proof -
  have "led_task tick rnd (now # later) s = led_task tick rnd later (session_complete s)"
    using assms by (simp add: led_iter_complete)
  also have "\<dots> = Some ((session_complete s)\<lparr>calls := calls (session_complete s)
                         @ replicate (length later) (TaskDelay (100 div tick))\<rparr>)"
    by (rule led_task_idle) (simp add: session_complete_eq)
  finally show ?thesis
    by (simp add: session_complete_eq)
qed

theorem session_completes_once_witness:
  "session_duration_ticks 10 (boot 0 0) = 60000
   \<and> led_task 10 id [60000, 60010, 60020] (boot 0 0) =
       Some ((boot 0 0)\<lparr>session_active := 0, session_ended := 1,
               calls := [LedcDuty 0, TaskDelay 10, TaskDelay 10]\<rparr>)"
proof -
  have d: "session_duration_ticks 10 (boot 0 0) = 60000"
    by (simp add: boot_def initial_def session_duration_ticks_def)
  have a: "override_active (boot 0 0) = 0" and b: "session_active (boot 0 0) \<noteq> 0"
    and c: "session_duration_ticks 10 (boot 0 0) \<le> 60000 - session_start_tick (boot 0 0)"
    by (simp_all add: d) (simp_all add: boot_def initial_def)
  have e: "(100 :: 32 word) div 10 = 10" by simp
  show ?thesis
    using session_completes_once [OF a b c, of id "[60010, 60020]"] d
    by (simp add: e boot_def initial_def)
qed

subsection \<open>The phase-advance loop\<close>

lemma next_phase_cycle:
  "next_phase 0 = 1" "next_phase 1 = 2" "next_phase 2 = 3" "next_phase 3 = 0"
  by (simp_all add: next_phase_def)

lemma checks_Suc: "(c :: 8 word) < 4 \<Longrightarrow> unat (c + 1) = Suc (unat c)"
  by (simp add: word_less_nat_alt unat_word_ariths)

lemma small_checks [simp]:
  "(1 :: 8 word) < 4" "(2 :: 8 word) < 4" "(3 :: 8 word) < 4" "\<not> (4 :: 8 word) < 4"
  by (simp_all add: word_less_nat_alt)

text \<open>The loop entered with any count of checks made so far, by induction on its run.\<close>

lemma advance_phase_from:
  "advance_phase durs now (p, ps, el, c) = (p', ps', el', c') \<Longrightarrow> unat c \<le> 4 \<Longrightarrow>
     unat c \<le> unat c' \<and> unat c' \<le> 4
     \<and> p' = (next_phase ^^ (unat c' - unat c)) p
     \<and> (\<forall>k < unat c' - unat c.
           phase_due durs ((next_phase ^^ k) p) (if k = 0 then el else 0))
     \<and> (unat c' < 4 \<longrightarrow> \<not> phase_due durs p' el')
     \<and> (c' = c \<longrightarrow> ps' = ps \<and> el' = el)
     \<and> (c' \<noteq> c \<longrightarrow> ps' = now \<and> el' = 0)"
proof (induction durs now "(p, ps, el, c)" arbitrary: p ps el c rule: advance_phase.induct)
  case (1 durs now phase pstart elapsed checks)
  show ?case
  proof (cases "checks < 4 \<and> phase_due durs phase elapsed")
    case False
    with "1.prems" have eq: "p' = phase" "ps' = pstart" "el' = elapsed" "c' = checks"
      by (simp_all add: advance_phase.simps)
    from False have "unat checks < 4 \<longrightarrow> \<not> phase_due durs phase elapsed"
      by (auto simp: word_less_nat_alt)
    with "1.prems"(2) show ?thesis
      unfolding eq by simp
  next
    case True
    then have lt: "checks < 4" and due: "phase_due durs phase elapsed" by simp_all
    have suc: "unat (checks + 1) = Suc (unat checks)"
      by (rule checks_Suc [OF lt])
    from lt have le: "unat (checks + 1) \<le> 4"
      by (simp add: suc word_less_nat_alt)
    from True "1.prems"(1)
    have rec: "advance_phase durs now (next_phase phase, now, 0, checks + 1)
                 = (p', ps', el', c')"
      by (simp add: advance_phase.simps [of durs now phase])
    note ih = "1.hyps" [OF True rec le]
    from ih have bounds: "Suc (unat checks) \<le> unat c'" "unat c' \<le> 4"
      by (simp_all add: suc)
    then have diff: "unat c' - unat checks = Suc (unat c' - unat (checks + 1))"
      by (simp add: suc)
    have ne: "c' \<noteq> checks"
      using bounds by auto
    have "p' = (next_phase ^^ (unat c' - unat checks)) phase"
      using ih by (simp add: diff funpow_swap1)
    moreover have "\<forall>k < unat c' - unat checks.
        phase_due durs ((next_phase ^^ k) phase) (if k = 0 then elapsed else 0)"
    proof (intro allI impI)
      fix k assume k: "k < unat c' - unat checks"
      show "phase_due durs ((next_phase ^^ k) phase) (if k = 0 then elapsed else 0)"
      proof (cases k)
        case 0
        with due show ?thesis by simp
      next
        case (Suc j)
        with k diff have "j < unat c' - unat (checks + 1)" by simp
        with ih have "phase_due durs ((next_phase ^^ j) (next_phase phase))
                        (if j = 0 then 0 else 0)"
          by blast
        with Suc show ?thesis by (simp add: funpow_swap1)
      qed
    qed
    moreover have "unat c' < 4 \<longrightarrow> \<not> phase_due durs p' el'"
      using ih by blast
    moreover have "ps' = now \<and> el' = 0"
      using ih by (cases "c' = checks + 1") simp_all
    ultimately show ?thesis
      using bounds ne by simp
  qed
qed

text \<open>
  C5. Let the phase-advance loop of an iteration start at \<open>phase\<close>, with \<open>elapsed\<close> ticks
  spent in it, and make \<open>checks\<close> advances. Then \<open>checks\<close> is at most 4. Every advance
  goes to the next phase in the order 0 (inhale), 1 (hold in), 2 (exhale), 3 (hold
  out), 0. Each advance was made from a phase that was due: its duration is zero, or the
  elapsed time, which is \<open>elapsed\<close> for the first advance and 0 after it, has reached its
  duration; and unless four advances were made, the phase the loop stops in is not due.
  If any advance was made the phase start is \<open>now\<close> and the elapsed time 0; otherwise both
  are unchanged.
\<close>

theorem phase_advance_loop:
  assumes "advance_phase durs now (phase, pstart, elapsed, 0)
             = (phase', pstart', elapsed', checks)"
  shows "unat checks \<le> 4
     \<and> phase' = (next_phase ^^ unat checks) phase
     \<and> next_phase 0 = 1 \<and> next_phase 1 = 2 \<and> next_phase 2 = 3 \<and> next_phase 3 = 0
     \<and> (\<forall>k < unat checks.
           phase_due durs ((next_phase ^^ k) phase) (if k = 0 then elapsed else 0))
     \<and> (unat checks < 4 \<longrightarrow> \<not> phase_due durs phase' elapsed')
     \<and> (checks = 0 \<longrightarrow> pstart' = pstart \<and> elapsed' = elapsed)
     \<and> (checks \<noteq> 0 \<longrightarrow> pstart' = now \<and> elapsed' = 0)"
  using advance_phase_from [OF assms] next_phase_cycle by auto

lemma advance_skips_zero_hold:
  "advance_phase [400, 0, 400, 0] 450 (0, 0, 450, 0) = (2, 450, 0, 2)"
  by (simp add: advance_phase.simps phase_due_def next_phase_def)

theorem phase_advance_loop_witness:
  "advance_phase [400, 0, 400, 0] 450 (0, 0, 450, 0) = (2, 450, 0, 2)
   \<and> (2 :: 8 word) = next_phase (next_phase 0)
   \<and> phase_due [400, 0, 400, 0] 0 450 \<and> phase_due [400, 0, 400, 0] (next_phase 0) 0
   \<and> \<not> phase_due [400, 0, 400, 0] 2 0"
proof -
  note t = phase_advance_loop [OF advance_skips_zero_hold]
  from t have two: "(2 :: 8 word) = (next_phase ^^ 2) 0"
    by simp
  from t have due: "\<forall>k<2. phase_due [400, 0, 400, 0] ((next_phase ^^ k) 0)
                             (if k = 0 then 450 else 0)"
    by simp
  from due have d0: "phase_due [400, 0, 400, 0] ((next_phase ^^ 0) 0)
                       (if (0::nat) = 0 then 450 else 0)"
    by (rule allE [where x = 0]) simp
  from due have d1: "phase_due [400, 0, 400, 0] ((next_phase ^^ Suc 0) 0)
                       (if Suc 0 = 0 then 450 else 0)"
    by (rule allE [where x = "Suc 0"]) simp
  from t have stop: "\<not> phase_due [400, 0, 400, 0] 2 0"
    by simp
  from two have "(2 :: 8 word) = next_phase (next_phase 0)"
    by (simp add: numeral_2_eq_2)
  with advance_skips_zero_hold d0 d1 stop show ?thesis
    by simp
qed

subsection \<open>What each step does to the session flags\<close>

lemma strobe_fields [simp]:
  "brightness (strobe tick sd duty s) = brightness s"
  "session_active (strobe tick sd duty s) = session_active s"
  "session_ended (strobe tick sd duty s) = session_ended s"
  "breath_phase (strobe tick sd duty s) = breath_phase s"
  "arms_closed_duration (strobe tick sd duty s) = arms_closed_duration s"
  "asleep (strobe tick sd duty s) = asleep s"
  "calls (strobe tick sd duty s) =
     calls s @ [LedcDuty (pwm1_raw (ucast duty)), TaskDelay (sd * 3 div 2 div tick),
                LedcDuty 0, TaskDelay (sd div 2 div tick)]"
  by (simp_all add: strobe_def pwm1_setduty_def pwm1_raw_def hw_def Let_def)

lemma led_modulate_Some:
  assumes "led_modulate tick rnd now progress s = Some s'"
  obtains sd durs phase pstart elapsed checks duty where
    "unsigned_of_float (fdiv rnd (Fin 500) (current_hz rnd s progress)) = Some sd"
    "breath_settle tick rnd now progress s = Some (durs, phase, pstart, elapsed, checks)"
    "final_duty rnd (phase_brightness rnd phase (breath_fraction rnd elapsed (durs ! unat phase))
        (breath_brightness s)) (brightness s) = Some duty"
    "s' = strobe tick sd duty
             (s\<lparr>breath_phase := phase, phase_start := pstart,
                breath_brightness := phase_brightness rnd phase
                   (breath_fraction rnd elapsed (durs ! unat phase)) (breath_brightness s)\<rparr>)"
  using assms unfolding led_modulate_def Let_def
  by (auto simp: bind_eq_Some_conv split: prod.splits)

lemma led_modulate_flags:
  assumes "led_modulate tick rnd now progress s = Some s'"
  shows "session_active s' = session_active s \<and> session_ended s' = session_ended s
     \<and> brightness s' = brightness s \<and> arms_closed_duration s' = arms_closed_duration s
     \<and> asleep s' = asleep s"
  using assms by (rule led_modulate_Some) simp

lemma log_progress_fields [simp]:
  "brightness (log_progress tick now s) = brightness s"
  "session_active (log_progress tick now s) = session_active s"
  "session_ended (log_progress tick now s) = session_ended s"
  "breath_phase (log_progress tick now s) = breath_phase s"
  "arms_closed_duration (log_progress tick now s) = arms_closed_duration s"
  "asleep (log_progress tick now s) = asleep s"
  "calls (log_progress tick now s) = calls s"
  by (simp_all add: log_progress_def)

lemma led_iter_cases:
  assumes "led_iter tick rnd now s = Some s'"
  shows "s' = hw (TaskDelay (100 div tick)) s \<or> s' = session_complete s
     \<or> led_modulate tick rnd now
          (session_progress rnd (now - session_start_tick s) (session_duration_ticks tick s))
          (log_progress tick now s) = Some s'"
proof (cases "override_active s \<noteq> 0 \<or> session_active s = 0")
  case True
  from led_iter_idle [OF True, of tick rnd now] assms show ?thesis by simp
next
  case False
  show ?thesis
  proof (cases "session_duration_ticks tick s \<le> now - session_start_tick s")
    case True
    with False assms show ?thesis
      by (simp add: led_iter_complete)
  next
    case nc: False
    with False assms show ?thesis
      by (simp add: led_iter_def Let_def)
  qed
qed

lemma led_iter_flags:
  assumes "led_iter tick rnd now s = Some s'"
  shows "(session_active s' = session_active s \<and> session_ended s' = session_ended s
           \<or> session_active s' = 0 \<and> session_ended s' = 1)
     \<and> brightness s' = brightness s \<and> arms_closed_duration s' = arms_closed_duration s
     \<and> asleep s' = asleep s"
  using led_iter_cases [OF assms]
proof (elim disjE)
  assume "s' = hw (TaskDelay (100 div tick)) s"
  then show ?thesis by (simp add: hw_def)
next
  assume "s' = session_complete s"
  then show ?thesis
    by (simp add: session_complete_def pwm1_setduty_def hw_def)
next
  assume "led_modulate tick rnd now
          (session_progress rnd (now - session_start_tick s) (session_duration_ticks tick s))
          (log_progress tick now s) = Some s'"
  from led_modulate_flags [OF this] show ?thesis by simp
qed

lemma check_sleep_flags:
  "session_active (check_sleep_condition tick now level s) = session_active s"
  "session_ended (check_sleep_condition tick now level s) = session_ended s"
  "brightness (check_sleep_condition tick now level s) = brightness s"
  by (simp_all add: check_sleep_condition_def enter_deep_sleep_def hw_def Let_def)

lemma cmd_flags:
  "session_active (legacy_cmd b s) = 0" "session_ended (legacy_cmd b s) = session_ended s"
  "session_active (cmd_A1 now val s) = (if 3 \<le> length val then 1 else session_active s)"
  "session_ended (cmd_A1 now val s) = (if 3 \<le> length val then 0 else session_ended s)"
  "session_active (cmd_A2 val s) = session_active s" "session_ended (cmd_A2 val s) = session_ended s"
  "session_active (cmd_A3 now val s) = (if 5 \<le> length val then 1 else session_active s)"
  "session_ended (cmd_A3 now val s) = (if 5 \<le> length val then 0 else session_ended s)"
  "session_active (cmd_A4 now val s) = (if 2 \<le> length val then 1 else session_active s)"
  "session_ended (cmd_A4 now val s) = (if 2 \<le> length val then 0 else session_ended s)"
  "session_active (cmd_A5 val s) = (if 2 \<le> length val then 0 else session_active s)"
  "session_ended (cmd_A5 val s) = session_ended s"
  "session_active (cmd_A6 now s) = 1" "session_ended (cmd_A6 now s) = 0"
  "session_active (cmd_A7 s) = session_active s" "session_ended (cmd_A7 s) = 1"
  by (simp_all add: legacy_cmd_def cmd_A1_def cmd_A2_def cmd_A3_def cmd_A4_def cmd_A5_def
      cmd_A6_def cmd_A7_def restart_session_def pwm1_setduty_def hw_def Let_def)

lemma write_flags:
  "(restart_command (Write now r val) \<longrightarrow>
       session_active (gatts_write_evt now r val s) = 1
     \<and> session_ended (gatts_write_evt now r val s) = 0)
   \<and> (sleep_command (Write now r val) \<longrightarrow>
       session_active (gatts_write_evt now r val s) = session_active s
     \<and> session_ended (gatts_write_evt now r val s) = 1)
   \<and> (\<not> restart_command (Write now r val) \<and> \<not> sleep_command (Write now r val) \<longrightarrow>
       (session_active (gatts_write_evt now r val s) = session_active s
         \<or> session_active (gatts_write_evt now r val s) = 0)
     \<and> session_ended (gatts_write_evt now r val s) = session_ended s)"
proof (cases "2 \<le> length val")
  case True
  then show ?thesis
    by (simp add: write_multi cmd_flags Let_def)
next
  case False
  then consider "val = []" | b where "val = [b]"
    by (cases val; cases "tl val") auto
  then show ?thesis
  proof cases
    case 1
    then show ?thesis by (simp add: gatts_write_evt_def)
  next
    case 2
    then show ?thesis by (simp add: write_single cmd_flags)
  qed
qed

lemma step_flags:
  assumes "step tick rnd e s = Some s'"
  shows "(restart_command e \<longrightarrow> session_active s' = 1 \<and> session_ended s' = 0)
   \<and> (sleep_command e \<longrightarrow> session_active s' = session_active s \<and> session_ended s' = 1)
   \<and> (\<not> restart_command e \<and> \<not> sleep_command e \<longrightarrow>
         session_active s' = session_active s \<and> session_ended s' = session_ended s
       \<or> session_active s' = 0)"
proof (cases e)
  case (Write now r val)
  with assms have s': "s' = gatts_write_evt now r val s" by simp
  from write_flags [of now r val s] show ?thesis
    unfolding Write s' by blast
next
  case (LedIter now)
  with assms have "led_iter tick rnd now s = Some s'" by simp
  from led_iter_flags [OF this] show ?thesis
    unfolding LedIter by auto
next
  case (SleepCheck now level)
  with assms have "s' = check_sleep_condition tick now level s" by simp
  then show ?thesis
    unfolding SleepCheck by (simp add: check_sleep_flags)
qed

text \<open>
  C2, as stated, has \<open>session_active\<close> and \<open>session_ended\<close> never both set in a reachable
  state. A write of 0xA7 with a second byte, arriving while the session started at boot
  is running, sets \<open>session_ended\<close> and leaves \<open>session_active\<close> set.
\<close>

theorem active_and_ended_counterexample:
  "reachable 10 id (gatts_write_evt 0 False [0xA7, 0] (boot 0 0))
   \<and> session_active (gatts_write_evt 0 False [0xA7, 0] (boot 0 0)) = 1
   \<and> session_ended (gatts_write_evt 0 False [0xA7, 0] (boot 0 0)) = 1"
proof -
  have "reachable 10 id (boot 0 0)" by (rule reachable_boot)
  moreover have "\<not> asleep (boot 0 0)" by (simp add: boot_def initial_def)
  moreover have "step 10 id (Write 0 False [0xA7, 0]) (boot 0 0)
                   = Some (gatts_write_evt 0 False [0xA7, 0] (boot 0 0))"
    by simp
  ultimately have "reachable 10 id (gatts_write_evt 0 False [0xA7, 0] (boot 0 0))"
    by (rule reachable_step)
  then show ?thesis
    by (simp add: write_multi cmd_A7_def boot_def initial_def)
qed

text \<open>
  C2, amended. Take any step of the system: a write, an iteration of the LED task, or a
  call of \<open>check_sleep_condition\<close>. If \<open>session_active\<close> and \<open>session_ended\<close> are both set
  after it, then either they were both set before it, or the step is a write of 0xA7 with
  at least two bytes; such a write sets \<open>session_ended\<close> and leaves \<open>session_active\<close> as it
  is. Every write that starts a session (0xA1, 0xA3, 0xA4, 0xA6 with their minimum
  lengths) sets \<open>session_active\<close> to 1 and clears \<open>session_ended\<close>, no other step turns
  \<open>session_active\<close> on, and boot sets \<open>session_active\<close> and clears \<open>session_ended\<close>.
\<close>

theorem active_and_ended_steps:
  assumes "step tick rnd e s = Some s'"
  shows "(session_active s' \<noteq> 0 \<and> session_ended s' \<noteq> 0 \<longrightarrow>
            session_active s \<noteq> 0 \<and> session_ended s \<noteq> 0 \<or> sleep_command e)
   \<and> (restart_command e \<longrightarrow> session_active s' = 1 \<and> session_ended s' = 0)
   \<and> (session_active s' \<noteq> 0 \<and> session_active s' \<noteq> session_active s \<longrightarrow> restart_command e)
   \<and> (sleep_command e \<longrightarrow> session_active s' = session_active s \<and> session_ended s' = 1)
   \<and> session_active (boot t0 t1) = 1 \<and> session_ended (boot t0 t1) = 0"
  using step_flags [OF assms] by (auto simp: boot_def)

theorem active_and_ended_steps_witness:
  "session_active (gatts_write_evt 3 False [0xA6, 0]
      (gatts_write_evt 0 False [0xA7, 0] (boot 0 0))) = 1
   \<and> session_ended (gatts_write_evt 3 False [0xA6, 0]
      (gatts_write_evt 0 False [0xA7, 0] (boot 0 0))) = 0
   \<and> session_active (gatts_write_evt 0 False [0xA7, 0] (boot 0 0)) = session_active (boot 0 0)
   \<and> session_ended (gatts_write_evt 0 False [0xA7, 0] (boot 0 0)) = 1"
proof -
  have a: "step 10 id (Write 0 False [0xA7, 0]) (boot 0 0)
             = Some (gatts_write_evt 0 False [0xA7, 0] (boot 0 0))"
    and b: "step 10 id (Write 3 False [0xA6, 0]) (gatts_write_evt 0 False [0xA7, 0] (boot 0 0))
             = Some (gatts_write_evt 3 False [0xA6, 0]
                      (gatts_write_evt 0 False [0xA7, 0] (boot 0 0)))"
    by simp_all
  have sl: "sleep_command (Write 0 False [0xA7, 0])"
    and re: "restart_command (Write 3 False [0xA6, 0])"
    by simp_all
  from active_and_ended_steps [OF a, of 0 0] sl active_and_ended_steps [OF b, of 0 0] re
  show ?thesis by blast
qed

subsection \<open>Rounding\<close>

lemma rounding_ok_id: "rounding_ok id"
  by (simp add: rounding_ok_def mono_def)

lemma rnd_exact:
  assumes "rounding_ok rnd" and "0 \<le> n" and "n \<le> 16777216"
  shows "rnd (of_int n) = of_int n"
  using assms by (simp add: rounding_ok_def)

lemma rnd_0 [simp]: "rounding_ok rnd \<Longrightarrow> rnd 0 = 0"
  using rnd_exact [of rnd 0] by simp

lemma rnd_1 [simp]: "rounding_ok rnd \<Longrightarrow> rnd 1 = 1"
  using rnd_exact [of rnd 1] by simp

lemma rnd_100 [simp]: "rounding_ok rnd \<Longrightarrow> rnd 100 = 100"
  using rnd_exact [of rnd 100] by simp

lemma rnd_500 [simp]: "rounding_ok rnd \<Longrightarrow> rnd 500 = 500"
  using rnd_exact [of rnd 500] by simp

lemma rnd_mono: "rounding_ok rnd \<Longrightarrow> x \<le> y \<Longrightarrow> rnd x \<le> rnd y"
  by (simp add: rounding_ok_def monoD)

lemma rnd_between:
  assumes ok: "rounding_ok rnd" and "of_int a \<le> x" and "x \<le> of_int b"
    and "0 \<le> a" "a \<le> 16777216" "0 \<le> b" "b \<le> 16777216"
  shows "of_int a \<le> rnd x \<and> rnd x \<le> of_int b"
proof -
  from rnd_mono [OF ok \<open>of_int a \<le> x\<close>] rnd_exact [OF ok \<open>0 \<le> a\<close> \<open>a \<le> 16777216\<close>]
  have "of_int a \<le> rnd x" by simp
  moreover from rnd_mono [OF ok \<open>x \<le> of_int b\<close>] rnd_exact [OF ok \<open>0 \<le> b\<close> \<open>b \<le> 16777216\<close>]
  have "rnd x \<le> of_int b" by simp
  ultimately show ?thesis ..
qed

lemma rnd_unit:
  assumes ok: "rounding_ok rnd" and "0 \<le> x" and "x \<le> 1"
  shows "0 \<le> rnd x \<and> rnd x \<le> 1"
  using rnd_between [OF ok, of 0 x 1] assms by simp

lemma rnd_nonneg: "rounding_ok rnd \<Longrightarrow> 0 \<le> x \<Longrightarrow> 0 \<le> rnd x"
  using rnd_mono [of rnd 0 x] by simp

lemma rnd_ge_1: "rounding_ok rnd \<Longrightarrow> 1 \<le> x \<Longrightarrow> 1 \<le> rnd x"
  using rnd_mono [of rnd 1 x] by simp

lemma float_of_uint:
  assumes ok: "rounding_ok rnd"
  shows "\<exists>x. float_of_int rnd (uint (w :: 'a::len word)) = Fin x \<and> 0 \<le> x \<and> (w \<noteq> 0 \<longrightarrow> 1 \<le> x)"
proof -
  have "(0 :: real) \<le> of_int (uint w)" by (simp del: of_int_uint)
  then have a: "0 \<le> rnd (of_int (uint w))"
    by (rule rnd_nonneg [OF ok])
  have b: "1 \<le> rnd (of_int (uint w))" if "w \<noteq> 0"
  proof -
    from that have "uint w \<noteq> 0" by (simp add: uint_0_iff)
    moreover have "0 \<le> uint w" by simp
    ultimately have "1 \<le> uint w" by linarith
    then have "(1 :: real) \<le> of_int (uint w)" by linarith
    then show ?thesis by (rule rnd_ge_1 [OF ok])
  qed
  show ?thesis
    unfolding float_of_int_def using a b by blast
qed

lemma breath_fraction_unit:
  assumes ok: "rounding_ok rnd" and nz: "duration \<noteq> 0"
  shows "\<exists>x. breath_fraction rnd el duration = Fin x \<and> 0 \<le> x \<and> x \<le> 1"
proof -
  from float_of_uint [OF ok, of el] obtain e where
    e: "float_of_int rnd (uint el) = Fin e" "0 \<le> e" by blast
  from float_of_uint [OF ok, of duration] nz obtain d where
    d: "float_of_int rnd (uint duration) = Fin d" "1 \<le> d" by blast
  from e d have "0 \<le> e / d" by simp
  then have r: "0 \<le> rnd (e / d)"
    by (rule rnd_nonneg [OF ok])
  from d have "d \<noteq> 0" by simp
  then have "breath_fraction rnd el duration =
      (if 1 < rnd (e / d) then Fin 1 else Fin (rnd (e / d)))"
    unfolding breath_fraction_def e d by (simp add: fgt_def Let_def)
  with r show ?thesis by auto
qed

lemma session_progress_fraction:
  "session_progress rnd e d = breath_fraction rnd e d"
  by (simp add: session_progress_def breath_fraction_def)

lemma phase_brightness_range:
  assumes ok: "rounding_ok rnd" and x: "0 \<le> x" "x \<le> 1"
    and p: "phase = 0 \<or> phase = 1 \<or> phase = 2 \<or> phase = 3"
  shows "\<exists>y. phase_brightness rnd phase (Fin x) old = Fin y \<and> 0 \<le> y \<and> y \<le> 100"
proof -
  from x have a: "of_int 0 \<le> x * 100" "x * 100 \<le> of_int 100" by simp_all
  from rnd_between [OF ok a] have up: "0 \<le> rnd (x * 100) \<and> rnd (x * 100) \<le> 100"
    by simp
  from x have "0 \<le> 1 + - x" "1 + - x \<le> 1" by simp_all
  from rnd_unit [OF ok this] have u: "0 \<le> rnd (1 + - x)" "rnd (1 + - x) \<le> 1" by simp_all
  then have b: "of_int 0 \<le> rnd (1 + - x) * 100" "rnd (1 + - x) * 100 \<le> of_int 100" by simp_all
  from rnd_between [OF ok b]
  have down: "0 \<le> rnd (rnd (1 + - x) * 100) \<and> rnd (rnd (1 + - x) * 100) \<le> 100"
    by simp
  from p up down show ?thesis
    by (auto simp: phase_brightness_def fsub_def)
qed

lemma final_duty_le:
  assumes ok: "rounding_ok rnd" and y: "0 \<le> y" "y \<le> 100"
  shows "\<exists>duty. final_duty rnd (Fin y) bright = Some duty \<and> duty \<le> bright"
proof -
  define b where "b = uint bright"
  have b0: "0 \<le> b" by (simp add: b_def)
  have b255: "b < 256" using uint_lt2p [of bright] by (simp add: b_def)
  have B: "rnd (of_int b) = of_int b"
    using b0 b255 by (intro rnd_exact [OF ok]) simp_all
  have "0 \<le> y * of_int b" using y b0 by simp
  moreover have "y * of_int b \<le> 100 * of_int b"
    using y b0 by (simp add: mult_right_mono)
  ultimately have a: "of_int 0 \<le> y * of_int b" "y * of_int b \<le> of_int (100 * b)"
    by simp_all
  from rnd_between [OF ok a] b0 b255
  have z: "0 \<le> rnd (y * of_int b)" "rnd (y * of_int b) \<le> 100 * of_int b"
    by simp_all
  define z where "z = rnd (y * of_int b)"
  from z have c: "of_int 0 \<le> z / 100" "z / 100 \<le> of_int b"
    by (simp_all add: z_def)
  from rnd_between [OF ok c] b0 b255
  have w: "0 \<le> rnd (z / 100)" "rnd (z / 100) \<le> of_int b"
    by simp_all
  define w where "w = rnd (z / 100)"
  from w have t: "ftrunc w = \<lfloor>w\<rfloor>" "0 \<le> \<lfloor>w\<rfloor>" "\<lfloor>w\<rfloor> \<le> b"
    by (simp_all add: w_def ftrunc_def floor_le_iff le_floor_iff)
  with b255 have lt: "\<lfloor>w\<rfloor> < 256" by linarith
  have "final_duty rnd (Fin y) bright
          = unsigned_of_float (fdiv rnd (fmul rnd (Fin y) (Fin (rnd (of_int b)))) (Fin 100))"
    unfolding final_duty_def float_of_int_def b_def ..
  also have "\<dots> = unsigned_of_float (Fin w)"
    by (simp add: B w_def z_def)
  finally have fd: "final_duty rnd (Fin y) bright = Some (word_of_int \<lfloor>w\<rfloor>)"
    using t lt by simp
  have "uint (word_of_int \<lfloor>w\<rfloor> :: 8 word) = \<lfloor>w\<rfloor>"
    using t lt by (simp add: uint_word_of_int)
  with t have "(word_of_int \<lfloor>w\<rfloor> :: 8 word) \<le> bright"
    by (simp add: word_le_def b_def)
  with fd show ?thesis by blast
qed

subsection \<open>The conversions of an iteration are defined\<close>

lemma unsigned_of_float_range:
  assumes "0 \<le> x" and "x \<le> of_int n" and "n < 2 ^ LENGTH('a)"
  shows "\<exists>w :: 'a::len word. unsigned_of_float (Fin x) = Some w"
proof -
  from assms(1) have t: "ftrunc x = \<lfloor>x\<rfloor>" "0 \<le> \<lfloor>x\<rfloor>"
    by (simp_all add: ftrunc_def)
  from assms(2) have "\<lfloor>x\<rfloor> \<le> n"
    by (simp add: floor_le_iff)
  with assms(3) have "\<lfloor>x\<rfloor> < 2 ^ LENGTH('a)" by linarith
  with t show ?thesis by simp
qed

lemma hold_defined:
  assumes ok: "rounding_ok rnd" and x: "0 \<le> x" "x \<le> 1"
  shows "\<exists>h :: 8 word.
     unsigned_of_float (fmul rnd (float_of_int rnd (uint (hold :: 8 word))) (Fin x)) = Some h"
proof -
  define b where "b = uint hold"
  have b0: "0 \<le> b" by (simp add: b_def)
  have b255: "b < 256" using uint_lt2p [of hold] by (simp add: b_def)
  have B: "rnd (of_int b) = of_int b"
    using b0 b255 by (intro rnd_exact [OF ok]) simp_all
  have "0 \<le> of_int b * x" using x b0 by simp
  moreover have "of_int b * x \<le> of_int b * 1"
    using x b0 by (intro mult_left_mono) simp_all
  ultimately have a: "of_int 0 \<le> of_int b * x" "of_int b * x \<le> of_int b"
    by simp_all
  from rnd_between [OF ok a] b0 b255
  have p: "0 \<le> rnd (of_int b * x)" "rnd (of_int b * x) \<le> of_int b"
    by simp_all
  have "fmul rnd (float_of_int rnd (uint hold)) (Fin x) = Fin (rnd (of_int b * x))"
    unfolding float_of_int_def b_def [symmetric] by (simp add: B)
  moreover from b255 have "b < 2 ^ LENGTH(8)" by simp
  ultimately show ?thesis
    using unsigned_of_float_range [OF p, where 'a = 8] by simp
qed

lemma current_hz_ge_1:
  "\<exists>h. current_hz rnd s (Fin x) = Fin h \<and> 1 \<le> h"
  by (simp add: current_hz_def float_of_int_def Let_def)

lemma strobe_delay_defined:
  assumes ok: "rounding_ok rnd"
  shows "\<exists>sd :: 32 word.
     unsigned_of_float (fdiv rnd (Fin 500) (current_hz rnd s (Fin x))) = Some sd"
proof -
  from current_hz_ge_1 [of rnd s x] obtain h where
    h: "current_hz rnd s (Fin x) = Fin h" "1 \<le> h" by blast
  then have "0 \<le> 500 / h" and "500 / h \<le> 500"
    by (simp_all add: divide_le_eq)
  then have a: "of_int 0 \<le> 500 / h" "500 / h \<le> of_int 500" by simp_all
  from rnd_between [OF ok a]
  have q: "0 \<le> rnd (500 / h)" "rnd (500 / h) \<le> of_int 500" by simp_all
  from h have "fdiv rnd (Fin 500) (current_hz rnd s (Fin x)) = Fin (rnd (500 / h))"
    by simp
  moreover have "(500 :: int) < 2 ^ LENGTH(32)" by simp
  ultimately show ?thesis
    using unsigned_of_float_range [OF q, where 'a = 32] by simp
qed

lemma breath_settle_defined:
  assumes ok: "rounding_ok rnd" and x: "0 \<le> x" "x \<le> 1" and p: "breath_phase s < 4"
  shows "\<exists>durs pv. breath_settle tick rnd now (Fin x) s = Some (durs, pv)"
proof -
  from hold_defined [OF ok x, of "hold_in_end s"] obtain hi :: "8 word" where
    hi: "unsigned_of_float (fmul rnd (float_of_int rnd (uint (hold_in_end s))) (Fin x)) = Some hi"
    by blast
  from hold_defined [OF ok x, of "hold_out_end s"] obtain ho :: "8 word" where
    ho: "unsigned_of_float (fmul rnd (float_of_int rnd (uint (hold_out_end s))) (Fin x)) = Some ho"
    by blast
  from p have "\<not> 4 \<le> breath_phase s" by simp
  then have "breath_settle tick rnd now (Fin x) s =
      Some (phase_durations tick s hi ho,
            advance_phase (phase_durations tick s hi ho) now
              (breath_phase s, phase_start s, now - phase_start s, 0))"
    unfolding breath_settle_def hi ho by (simp add: Let_def)
  then show ?thesis by blast
qed

lemma word8_less_4:
  "(p :: 8 word) < 4 \<Longrightarrow> p = 0 \<or> p = 1 \<or> p = 2 \<or> p = 3"
  by (auto simp: word_less_nat_alt word_unat_eq_iff)

lemma next_phase_less_4: "next_phase p < 4"
proof -
  have "0 \<le> (uint p + 1) mod 4" and "(uint p + 1) mod 4 < 4" by simp_all
  then have "(uint p + 1) mod 4 = 0 \<or> (uint p + 1) mod 4 = 1
     \<or> (uint p + 1) mod 4 = 2 \<or> (uint p + 1) mod 4 = 3"
    by linarith
  then show ?thesis
    unfolding next_phase_def by (elim disjE) (simp_all add: word_less_nat_alt)
qed

lemma advance_phase_less_4:
  assumes "advance_phase durs now (p, ps, el, 0) = (p', ps', el', n)" and "p < 4"
  shows "p' < 4"
proof -
  from advance_phase_from [OF assms(1)] have p': "p' = (next_phase ^^ unat n) p"
    by simp
  show ?thesis
  proof (cases "unat n")
    case 0
    with p' assms(2) show ?thesis by simp
  next
    case (Suc m)
    with p' show ?thesis by (simp add: next_phase_less_4)
  qed
qed

lemma breath_settle_fields:
  "breath_settle tick rnd now progress (log_progress tick now' s)
     = breath_settle tick rnd now progress s"
  by (simp add: breath_settle_def log_progress_def phase_durations_def cong: if_cong)

lemma breath_settle_less_4:
  assumes "breath_settle tick rnd now progress s = Some (durs, phase, pstart, elapsed, checks)"
  shows "phase < 4"
proof -
  from assms have adv: "advance_phase durs now
           (breath_phase s, phase_start s, now - phase_start s, 0)
           = (phase, pstart, elapsed, checks)"
    and p: "breath_phase s < 4"
    by (auto simp: breath_settle_def bind_eq_Some_conv Let_def not_le split: if_splits)
  then show ?thesis by (rule advance_phase_less_4)
qed

subsection \<open>Invariants of the reachable states\<close>

lemma cmd_frame:
  "breath_phase (legacy_cmd b s) = breath_phase s"
  "breath_phase (cmd_A1 now val s) = breath_phase s"
  "breath_phase (cmd_A2 val s) = breath_phase s"
  "breath_phase (cmd_A3 now val s) = breath_phase s"
  "breath_phase (cmd_A4 now val s) = breath_phase s"
  "breath_phase (cmd_A5 val s) = breath_phase s"
  "breath_phase (cmd_A6 now s) = breath_phase s"
  "breath_phase (cmd_A7 s) = breath_phase s"
  "arms_closed_duration (legacy_cmd b s) = arms_closed_duration s"
  "arms_closed_duration (cmd_A1 now val s) = arms_closed_duration s"
  "arms_closed_duration (cmd_A2 val s) = arms_closed_duration s"
  "arms_closed_duration (cmd_A3 now val s) = arms_closed_duration s"
  "arms_closed_duration (cmd_A4 now val s) = arms_closed_duration s"
  "arms_closed_duration (cmd_A5 val s) = arms_closed_duration s"
  "arms_closed_duration (cmd_A6 now s) = arms_closed_duration s"
  "arms_closed_duration (cmd_A7 s) = arms_closed_duration s"
  "asleep (legacy_cmd b s) = asleep s"
  "asleep (cmd_A1 now val s) = asleep s"
  "asleep (cmd_A2 val s) = asleep s"
  "asleep (cmd_A3 now val s) = asleep s"
  "asleep (cmd_A4 now val s) = asleep s"
  "asleep (cmd_A5 val s) = asleep s"
  "asleep (cmd_A6 now s) = asleep s"
  "asleep (cmd_A7 s) = asleep s"
  "brightness (legacy_cmd b s) = brightness s"
  "brightness (cmd_A1 now val s) = brightness s"
  "brightness (cmd_A2 val s) =
     (if 2 \<le> length val then (if val ! 1 > 100 then 100 else val ! 1) else brightness s)"
  "brightness (cmd_A3 now val s) = brightness s"
  "brightness (cmd_A4 now val s) = brightness s"
  "brightness (cmd_A5 val s) = brightness s"
  "brightness (cmd_A6 now s) = brightness s"
  "brightness (cmd_A7 s) = brightness s"
  by (simp_all add: legacy_cmd_def cmd_A1_def cmd_A2_def cmd_A3_def cmd_A4_def cmd_A5_def
      cmd_A6_def cmd_A7_def restart_session_def pwm1_setduty_def hw_def Let_def)

lemma write_frame:
  "breath_phase (gatts_write_evt now r val s) = breath_phase s
   \<and> arms_closed_duration (gatts_write_evt now r val s) = arms_closed_duration s
   \<and> asleep (gatts_write_evt now r val s) = asleep s
   \<and> (brightness s \<le> 100 \<longrightarrow> brightness (gatts_write_evt now r val s) \<le> 100)"
proof (cases "2 \<le> length val")
  case True
  then show ?thesis
    by (simp add: write_multi cmd_frame Let_def not_less)
next
  case False
  then consider "val = []" | b where "val = [b]"
    by (cases val; cases "tl val") auto
  then show ?thesis
  proof cases
    case 1
    then show ?thesis by (simp add: gatts_write_evt_def)
  next
    case 2
    then show ?thesis by (simp add: write_single cmd_frame)
  qed
qed

lemma led_iter_phase:
  assumes "led_iter tick rnd now s = Some s'" and "breath_phase s < 4"
  shows "breath_phase s' < 4"
  using led_iter_cases [OF assms(1)]
proof (elim disjE)
  assume "s' = hw (TaskDelay (100 div tick)) s"
  with assms(2) show ?thesis by (simp add: hw_def)
next
  assume "s' = session_complete s"
  with assms(2) show ?thesis
    by (simp add: session_complete_def pwm1_setduty_def hw_def)
next
  assume "led_modulate tick rnd now
          (session_progress rnd (now - session_start_tick s) (session_duration_ticks tick s))
          (log_progress tick now s) = Some s'"
  then show ?thesis
  proof (rule led_modulate_Some)
    fix sd durs phase pstart elapsed checks duty
    assume "breath_settle tick rnd now
          (session_progress rnd (now - session_start_tick s) (session_duration_ticks tick s))
          (log_progress tick now s) = Some (durs, phase, pstart, elapsed, checks)"
      and s': "s' = strobe tick sd duty
             ((log_progress tick now s)\<lparr>breath_phase := phase, phase_start := pstart,
                breath_brightness := phase_brightness rnd phase
                   (breath_fraction rnd elapsed (durs ! unat phase))
                   (breath_brightness (log_progress tick now s))\<rparr>)"
    from breath_settle_less_4 [OF this(1)] show ?thesis
      unfolding s' by simp
  qed
qed

lemma check_sleep_frame:
  "breath_phase (check_sleep_condition tick now level s) = breath_phase s"
  "arms_closed_duration s < 5 \<Longrightarrow> \<not> asleep (check_sleep_condition tick now level s) \<Longrightarrow>
     arms_closed_duration (check_sleep_condition tick now level s) < 5"
  by (auto simp: check_sleep_condition_def enter_deep_sleep_def hw_def Let_def
      SLEEP_HALL_WAIT_TIME_def not_le split: if_splits)

lemma reachable_invariants:
  assumes "reachable tick rnd s"
  shows "brightness s \<le> 100 \<and> breath_phase s < 4
     \<and> (\<not> asleep s \<longrightarrow> arms_closed_duration s < 5)"
  using assms
proof (induction rule: reachable.induct)
  case (reachable_boot t0 t1)
  show ?case by (simp add: boot_def initial_def)
next
  case (reachable_step s e s')
  then have b: "brightness s \<le> 100" and p: "breath_phase s < 4"
    and a: "arms_closed_duration s < 5"
    by simp_all
  show ?case
  proof (cases e)
    case (Write now r val)
    with reachable_step have "s' = gatts_write_evt now r val s" by simp
    with write_frame [of now r val s] b p a show ?thesis by simp
  next
    case (LedIter now)
    with reachable_step have it: "led_iter tick rnd now s = Some s'" by simp
    from led_iter_flags [OF it] led_iter_phase [OF it p] b a show ?thesis by simp
  next
    case (SleepCheck now level)
    with reachable_step have "s' = check_sleep_condition tick now level s" by simp
    with check_sleep_frame check_sleep_flags(3) b p a
    show ?thesis by auto
  qed
qed

subsection \<open>The duty of the dark interval\<close>

lemma log_progress_more [simp]:
  "breath_brightness (log_progress tick now s) = breath_brightness s"
  "current_hz rnd (log_progress tick now s) progress = current_hz rnd s progress"
  by (simp_all add: log_progress_def current_hz_def)

lemma led_iter_running:
  assumes "override_active s = 0" and "session_active s \<noteq> 0"
    and "now - session_start_tick s < session_duration_ticks tick s"
  shows "led_iter tick rnd now s =
     led_modulate tick rnd now
       (session_progress rnd (now - session_start_tick s) (session_duration_ticks tick s))
       (log_progress tick now s)"
proof -
  from assms(3) have "\<not> session_duration_ticks tick s \<le> now - session_start_tick s"
    by (simp add: not_le)
  with assms(1,2) show ?thesis
    by (simp add: led_iter_def Let_def)
qed

text \<open>In a reachable state, an iteration of a running session always settles.\<close>

lemma running_iteration_settles:
  assumes ok: "rounding_ok rnd" and reach: "reachable tick rnd s"
    and run: "now - session_start_tick s < session_duration_ticks tick s"
  shows "\<exists>durs pv. breath_settle tick rnd now
        (session_progress rnd (now - session_start_tick s) (session_duration_ticks tick s)) s
        = Some (durs, pv)"
proof -
  from run have "session_duration_ticks tick s \<noteq> 0"
    by (auto simp: word_less_nat_alt)
  from breath_fraction_unit [OF ok this, of "now - session_start_tick s"] obtain x where
    x: "session_progress rnd (now - session_start_tick s) (session_duration_ticks tick s)
          = Fin x" "0 \<le> x" "x \<le> 1"
    unfolding session_progress_fraction by blast
  from reachable_invariants [OF reach] have "breath_phase s < 4" by simp
  from breath_settle_defined [OF ok x(2,3) this] show ?thesis
    unfolding x(1) .
qed

lemma led_modulate_run:
  assumes sd: "unsigned_of_float (fdiv rnd (Fin 500) (current_hz rnd s progress)) = Some sd"
    and settle: "breath_settle tick rnd now progress s = Some (durs, phase, pstart, elapsed, checks)"
    and duty: "final_duty rnd (phase_brightness rnd phase
        (breath_fraction rnd elapsed (durs ! unat phase)) (breath_brightness s)) (brightness s)
        = Some duty"
  shows "led_modulate tick rnd now progress s =
     Some (strobe tick sd duty
             (s\<lparr>breath_phase := phase, phase_start := pstart,
                breath_brightness := phase_brightness rnd phase
                   (breath_fraction rnd elapsed (durs ! unat phase)) (breath_brightness s)\<rparr>))"
  unfolding led_modulate_def sd settle by (simp add: Let_def duty)

text \<open>
  C10. Let the rounding be monotone and exact on small integers, the state reachable,
  the session active, not overridden and not yet complete, and let the phase the
  phase-advance loop of this iteration settles in have a nonzero duration. Then the
  iteration is defined, and the duty it computes as the truncation of
  \<open>breath_brightness * brightness / 100\<close> and writes for the dark interval is at most the
  configured \<open>brightness\<close>, which is at most 100. The other write of the iteration is the
  0 of the clear interval.
\<close>

theorem session_duty_bounded:
  assumes ok: "rounding_ok rnd" and reach: "reachable tick rnd s"
    and ov: "override_active s = 0" and act: "session_active s \<noteq> 0"
    and run: "now - session_start_tick s < session_duration_ticks tick s"
    and settle: "breath_settle tick rnd now
        (session_progress rnd (now - session_start_tick s) (session_duration_ticks tick s)) s
        = Some (durs, phase, pstart, elapsed, checks)"
    and nz: "durs ! unat phase \<noteq> 0"
  shows "\<exists>duty. final_duty rnd (phase_brightness rnd phase
        (breath_fraction rnd elapsed (durs ! unat phase)) (breath_brightness s)) (brightness s)
        = Some duty
     \<and> duty \<le> brightness s \<and> brightness s \<le> 100
     \<and> (\<exists>s' t_on t_off. led_iter tick rnd now s = Some s'
          \<and> calls s' = calls s @ [LedcDuty (pwm1_raw (ucast duty)), TaskDelay t_on,
                                  LedcDuty 0, TaskDelay t_off])"
proof -
  let ?progress = "session_progress rnd (now - session_start_tick s)
                     (session_duration_ticks tick s)"
  let ?s0 = "log_progress tick now s"
  from reachable_invariants [OF reach] have b100: "brightness s \<le> 100" by simp
  from breath_settle_less_4 [OF settle] have "phase < 4" .
  then have ph: "phase = 0 \<or> phase = 1 \<or> phase = 2 \<or> phase = 3"
    by (rule word8_less_4)
  from breath_fraction_unit [OF ok nz, of elapsed] obtain x where
    x: "breath_fraction rnd elapsed (durs ! unat phase) = Fin x" "0 \<le> x" "x \<le> 1"
    by blast
  from phase_brightness_range [OF ok x(2,3) ph, of "breath_brightness s"] obtain y where
    y: "phase_brightness rnd phase (Fin x) (breath_brightness s) = Fin y" "0 \<le> y" "y \<le> 100"
    by blast
  from final_duty_le [OF ok y(2,3), of "brightness s"] obtain duty where
    duty: "final_duty rnd (Fin y) (brightness s) = Some duty" "duty \<le> brightness s"
    by blast
  from run have "session_duration_ticks tick s \<noteq> 0"
    by (auto simp: word_less_nat_alt)
  from breath_fraction_unit [OF ok this, of "now - session_start_tick s"] obtain px where
    px: "?progress = Fin px"
    unfolding session_progress_fraction by blast
  from strobe_delay_defined [OF ok, of s px] obtain sd :: "32 word" where
    sd: "unsigned_of_float (fdiv rnd (Fin 500) (current_hz rnd s ?progress)) = Some sd"
    unfolding px by blast
  have "led_iter tick rnd now s = led_modulate tick rnd now ?progress ?s0"
    by (rule led_iter_running [OF ov act run])
  also have "\<dots> = Some (strobe tick sd duty
             (?s0\<lparr>breath_phase := phase, phase_start := pstart,
                breath_brightness := phase_brightness rnd phase
                   (breath_fraction rnd elapsed (durs ! unat phase))
                   (breath_brightness ?s0)\<rparr>))"
    by (rule led_modulate_run) (simp_all add: sd breath_settle_fields settle x y duty)
  finally have "\<exists>s' t_on t_off. led_iter tick rnd now s = Some s'
          \<and> calls s' = calls s @ [LedcDuty (pwm1_raw (ucast duty)), TaskDelay t_on,
                                  LedcDuty 0, TaskDelay t_off]"
    by simp
  with duty b100 show ?thesis
    unfolding x y by blast
qed

lemma boot_settle:
  "breath_settle 10 id 100
     (session_progress id (100 - session_start_tick (boot 0 0))
        (session_duration_ticks 10 (boot 0 0)))
     (boot 0 0) = Some ([400, 0, 400, 0], 0, 0, 100, 0)"
  by (simp add: breath_settle_def session_progress_def session_duration_ticks_def boot_def
      initial_def float_of_int_def fgt_def ftrunc_def phase_durations_def Let_def
      advance_phase.simps phase_due_def)

lemma boot_iter:
  "map_option calls (led_iter 10 id 100 (boot 0 0))
     = Some [LedcDuty 556, TaskDelay 6, LedcDuty 0, TaskDelay 2]"
  by (simp add: led_iter_def led_modulate_def
      breath_settle_def session_progress_def session_duration_ticks_def boot_def
      initial_def float_of_int_def fgt_def ftrunc_def phase_durations_def Let_def
      advance_phase.simps phase_due_def log_progress_def current_hz_def
      breath_fraction_def phase_brightness_def final_duty_def strobe_def pwm1_setduty_def
      pwm1_raw_def PWM_MIN_VISIBLE_def PWM_MAX_def hw_def)

theorem session_duty_bounded_witness:
  "rounding_ok id \<and> reachable 10 id (boot 0 0)
   \<and> (\<exists>duty. final_duty id (phase_brightness id 0
          (breath_fraction id 100 ([400, 0, 400, 0] ! unat (0 :: 8 word)))
          (breath_brightness (boot 0 0))) (brightness (boot 0 0)) = Some duty
      \<and> duty \<le> brightness (boot 0 0) \<and> brightness (boot 0 0) \<le> 100
      \<and> (\<exists>s' t_on t_off. led_iter 10 id 100 (boot 0 0) = Some s'
           \<and> calls s' = calls (boot 0 0) @ [LedcDuty (pwm1_raw (ucast duty)), TaskDelay t_on,
                                   LedcDuty 0, TaskDelay t_off]))"
proof -
  have reach: "reachable 10 id (boot 0 0)" by (rule reachable_boot)
  have ov: "override_active (boot 0 0) = 0" and act: "session_active (boot 0 0) \<noteq> 0"
    by (simp_all add: boot_def initial_def)
  have run: "100 - session_start_tick (boot 0 0) < session_duration_ticks 10 (boot 0 0)"
    by (simp add: boot_def initial_def session_duration_ticks_def)
  have nz: "[400, 0, 400, 0] ! unat (0 :: 8 word) \<noteq> (0 :: 32 word)" by simp
  from session_duty_bounded [OF rounding_ok_id reach ov act run boot_settle nz]
    rounding_ok_id reach
  show ?thesis by blast
qed

subsection \<open>A settled phase of zero duration\<close>

text \<open>
  When the loop settles in a phase of zero duration it has made four advances, so the
  elapsed time is 0 as well, and \<open>bp\<close> is \<open>0.0f / 0.0f\<close>: NaN, which the test \<open>bp > 1.0f\<close>
  leaves as it is.
\<close>

lemma zero_settled_duration:
  assumes "rnd 0 = 0"
    and "advance_phase durs now (p, ps, el, 0) = (p', ps', el', n)"
    and "durs ! unat p' = 0"
  shows "unat n = 4 \<and> el' = 0 \<and> breath_fraction rnd el' (durs ! unat p') = NaN"
proof -
  note adv = advance_phase_from [OF assms(2)]
  from assms(3) have "phase_due durs p' el'"
    by (simp add: phase_due_def)
  with adv have n: "unat n = 4" by auto
  then have "n \<noteq> 0" by auto
  with adv have "el' = 0" by simp
  with n assms(1,3) show ?thesis
    by (simp add: breath_fraction_def float_of_int_def fgt_def)
qed

text \<open>
  C3 asks that \<open>bp\<close> be exactly 1 when the settled phase has zero duration. The source
  divides without a guard. After the write \<open>A3 00 00 00 00\<close> all four durations are zero:
  an iteration that starts in phase 0 makes four advances, settles in phase 0 with
  elapsed time 0, and computes \<open>bp\<close> as NaN, not 1; the NaN reaches the conversion of the
  duty to \<open>uint8_t\<close>, where the behaviour of the iteration is undefined.
\<close>

theorem zero_durations_fraction_nan:
  "breath_settle 10 id 5 (session_progress id 5 60000)
      (gatts_write_evt 0 False [0xA3, 0, 0, 0, 0] (boot 0 0))
     = Some ([0, 0, 0, 0], 0, 5, 0, 4)
   \<and> breath_fraction id 0 ([0, 0, 0, 0] ! unat (0 :: 8 word)) = NaN
   \<and> breath_fraction id 0 ([0, 0, 0, 0] ! unat (0 :: 8 word)) \<noteq> Fin 1
   \<and> led_iter 10 id 5 (gatts_write_evt 0 False [0xA3, 0, 0, 0, 0] (boot 0 0)) = None"
proof -
  have "breath_settle 10 id 5 (session_progress id 5 60000)
      (gatts_write_evt 0 False [0xA3, 0, 0, 0, 0] (boot 0 0))
     = Some ([0, 0, 0, 0], 0, 5, 0, 4)"
    by (simp add: write_multi cmd_A3_def restart_session_def send_response_def
      breath_settle_def session_progress_def session_duration_ticks_def boot_def
      initial_def float_of_int_def fgt_def ftrunc_def phase_durations_def Let_def
      advance_phase.simps phase_due_def next_phase_def)
  moreover have "breath_fraction id 0 ([0, 0, 0, 0] ! unat (0 :: 8 word)) = NaN"
    by (simp add: breath_fraction_def float_of_int_def fgt_def)
  moreover have "led_iter 10 id 5 (gatts_write_evt 0 False [0xA3, 0, 0, 0, 0] (boot 0 0)) = None"
    by (simp add: write_multi cmd_A3_def restart_session_def send_response_def
      led_iter_def led_modulate_def
      breath_settle_def session_progress_def session_duration_ticks_def boot_def
      initial_def float_of_int_def fgt_def ftrunc_def phase_durations_def Let_def
      advance_phase.simps phase_due_def log_progress_def current_hz_def next_phase_def
      breath_fraction_def phase_brightness_def final_duty_def)
  ultimately show ?thesis by simp
qed

end
